theory Spec2Isabelle
  imports Main "HOL-Library.Sublist"
begin

section \<open>Regular expressions\<close>

text \<open>
  The worker tests its inputs with two regular expressions. Both are anchored
  (\<^verbatim>\<open>^...$\<close>) and use only literals, character classes, grouping, alternation and
  repetition, so \<^verbatim>\<open>regex.test(s)\<close> holds exactly when the whole string is in the
  language of the expression. The matcher below decides that by derivatives.
\<close>

datatype regex =
    Fail
  | Eps
  | Lit char
  | Class "char list"
  | Seq regex regex
  | Alt regex regex
  | Star regex

fun nullable :: "regex \<Rightarrow> bool" where
  "nullable Fail = False"
| "nullable Eps = True"
| "nullable (Lit c) = False"
| "nullable (Class cs) = False"
| "nullable (Seq r s) = (nullable r \<and> nullable s)"
| "nullable (Alt r s) = (nullable r \<or> nullable s)"
| "nullable (Star r) = True"

fun deriv :: "char \<Rightarrow> regex \<Rightarrow> regex" where
  "deriv c Fail = Fail"
| "deriv c Eps = Fail"
| "deriv c (Lit d) = (if c = d then Eps else Fail)"
| "deriv c (Class cs) = (if c \<in> set cs then Eps else Fail)"
| "deriv c (Seq r s) =
     (if nullable r then Alt (Seq (deriv c r) s) (deriv c s) else Seq (deriv c r) s)"
| "deriv c (Alt r s) = Alt (deriv c r) (deriv c s)"
| "deriv c (Star r) = Seq (deriv c r) (Star r)"

fun regex_test :: "regex \<Rightarrow> string \<Rightarrow> bool" where
  "regex_test r [] = nullable r"
| "regex_test r (c # cs) = regex_test (deriv c r) cs"

fun exactly :: "nat \<Rightarrow> regex \<Rightarrow> regex" where
  "exactly 0 r = Eps"
| "exactly (Suc n) r = Seq r (exactly n r)"

fun at_most :: "nat \<Rightarrow> regex \<Rightarrow> regex" where
  "at_most 0 r = Eps"
| "at_most (Suc n) r = Alt Eps (Seq r (at_most n r))"

definition between :: "nat \<Rightarrow> nat \<Rightarrow> regex \<Rightarrow> regex" where
  "between m n r = Seq (exactly m r) (at_most (n - m) r)"

definition one_or_more :: "regex \<Rightarrow> regex" where
  "one_or_more r = Seq r (Star r)"

definition digit :: regex where
  "digit = Class ''0123456789''"

definition hex_or_colon :: regex where
  "hex_or_colon = Class ''0123456789abcdefABCDEF:''"

definition cidr_regex :: regex where
  "cidr_regex =
     Alt (Seq (exactly 3 (Seq (between 1 3 digit) (Lit CHR ''.'')))
            (Seq (between 1 3 digit) (Seq (Lit CHR ''/'') (between 1 2 digit))))
         (Seq (one_or_more hex_or_colon) (Seq (Lit CHR ''/'') (between 1 3 digit)))"

definition isValidCIDR :: "string \<Rightarrow> bool" where
  "isValidCIDR pfx = regex_test cidr_regex pfx"

definition conc :: "string set \<Rightarrow> string set \<Rightarrow> string set" where
  "conc A B = {u @ v | u v. u \<in> A \<and> v \<in> B}"

inductive_set star :: "string set \<Rightarrow> string set" for A :: "string set" where
  star_empty: "[] \<in> star A"
| star_step: "u \<in> A \<Longrightarrow> v \<in> star A \<Longrightarrow> u @ v \<in> star A"

fun lang :: "regex \<Rightarrow> string set" where
  "lang Fail = {}"
| "lang Eps = {[]}"
| "lang (Lit c) = {[c]}"
| "lang (Class cs) = {[c] | c. c \<in> set cs}"
| "lang (Seq r s) = conc (lang r) (lang s)"
| "lang (Alt r s) = lang r \<union> lang s"
| "lang (Star r) = star (lang r)"

text \<open>
  The two forms of a CIDR string in words: decimal groups of bounded length, the dotted
  quad with its prefix length, and the run of hexadecimal digits and colons with its
  prefix length (with and without the demand that a colon occurs).
\<close>

definition digits_between :: "nat \<Rightarrow> nat \<Rightarrow> string \<Rightarrow> bool" where
  "digits_between m n w =
     (m \<le> length w \<and> length w \<le> n \<and> set w \<subseteq> set ''0123456789'')"

definition ipv4_cidr_form :: "string \<Rightarrow> bool" where
  "ipv4_cidr_form s =
     (\<exists>a b c d p. s = a @ ''.'' @ b @ ''.'' @ c @ ''.'' @ d @ ''/'' @ p \<and>
        digits_between 1 3 a \<and> digits_between 1 3 b \<and> digits_between 1 3 c \<and>
        digits_between 1 3 d \<and> digits_between 1 2 p)"

definition hex_colon_cidr_form :: "string \<Rightarrow> bool" where
  "hex_colon_cidr_form s =
     (\<exists>g p. s = g @ ''/'' @ p \<and> g \<noteq> [] \<and>
        set g \<subseteq> set ''0123456789abcdefABCDEF:'' \<and> digits_between 1 3 p)"

definition colon_containing_cidr_form :: "string \<Rightarrow> bool" where
  "colon_containing_cidr_form s =
     (\<exists>g p. s = g @ ''/'' @ p \<and> CHR '':'' \<in> set g \<and>
        set g \<subseteq> set ''0123456789abcdefABCDEF:'' \<and> digits_between 1 3 p)"

section \<open>The worker\<close>

definition asn_regex :: regex where
  "asn_regex = Seq (Lit CHR ''A'') (Seq (Lit CHR ''S'') (one_or_more digit))"

subsection \<open>JavaScript values: numbers in templates, Set, Array.prototype.slice, JSON\<close>

text \<open>
  A template literal \<^verbatim>\<open>${n}\<close> of a non-negative integer prints its decimal digits.
\<close>

fun show_nat :: "nat \<Rightarrow> string" where
  "show_nat n =
     (if n < 10 then [''0123456789'' ! n]
      else show_nat (n div 10) @ [''0123456789'' ! (n mod 10)])"

declare show_nat.simps [simp del]

text \<open>
  A JavaScript \<^verbatim>\<open>Set\<close> keeps its members in insertion order, each once (the first
  occurrence stays); \<^verbatim>\<open>[...set]\<close> lists them in that order. The model is that list.
\<close>

definition Set_add :: "'a list \<Rightarrow> 'a \<Rightarrow> 'a list" where
  "Set_add s x = (if x \<in> set s then s else s @ [x])"

definition new_Set :: "'a list \<Rightarrow> 'a list" where
  "new_Set xs = foldl Set_add [] xs"

definition Set_has :: "'a list \<Rightarrow> 'a \<Rightarrow> bool" where
  "Set_has s x = (x \<in> set s)"

text \<open>\<^verbatim>\<open>xs.slice(i, j)\<close> for \<open>0 \<le> i\<close>: the elements at positions \<open>i \<le> k < j\<close> that exist.\<close>

definition slice :: "'a list \<Rightarrow> nat \<Rightarrow> nat \<Rightarrow> 'a list" where
  "slice xs i j = take (j - i) (drop i xs)"

text \<open>
  A value as \<^verbatim>\<open>JSON.parse\<close> gives it, or \<^verbatim>\<open>undefined\<close>. A number is given by a
  mantissa \<open>m\<close> and an exponent \<open>e\<close> for \<open>m \<cdot> 2\<^sup>e\<close>; an object is the list of its
  own properties, each key once.
\<close>

datatype js =
    JUndefined
  | JNull
  | JBool bool
  | JNum int int
  | JStr string
  | JArr "js list"
  | JObj "(string \<times> js) list"

text \<open>What \<^verbatim>\<open>!v\<close> negates.\<close>

fun truthy :: "js \<Rightarrow> bool" where
  "truthy JUndefined = False"
| "truthy JNull = False"
| "truthy (JBool b) = b"
| "truthy (JNum m e) = (m \<noteq> 0)"
| "truthy (JStr s) = (s \<noteq> [])"
| "truthy (JArr xs) = True"
| "truthy (JObj kvs) = True"

subsection \<open>Data of the worker\<close>

text \<open>
  An HTTP response as the worker reads it: the status and the body text that
  \<^verbatim>\<open>res.text()\<close> resolves to; \<^verbatim>\<open>res.ok\<close> is a 2xx status.
\<close>

record response =
  res_status :: nat
  res_text :: string

definition ok :: "response \<Rightarrow> bool" where
  "ok res = (200 \<le> res_status res \<and> res_status res \<le> 299)"

text \<open>A list item \<^verbatim>\<open>{ value: p }\<close> and a PATCH payload with its optional keys.\<close>

record item =
  item_value :: js

record payload =
  payload_append :: "item list option"
  payload_remove :: "item list option"

text \<open>
  A thrown \<^verbatim>\<open>new Error(message)\<close>; of a \<^verbatim>\<open>TypeError\<close> the worker reads the message
  only, so it is an \<open>Error\<close> too.
\<close>

datatype error = Error (message: string)

text \<open>
  The read \<^verbatim>\<open>v.key\<close>, for the keys that the worker reads of a parsed body
  (\<^verbatim>\<open>success\<close>, \<^verbatim>\<open>result\<close>, \<^verbatim>\<open>items\<close>, \<^verbatim>\<open>errors\<close>, \<^verbatim>\<open>value\<close>: none of them is a
  property that strings, numbers or arrays have). On \<^verbatim>\<open>null\<close> and \<^verbatim>\<open>undefined\<close> the
  read throws a \<^verbatim>\<open>TypeError\<close>; the message is the one of V8.
\<close>

fun js_get :: "js \<Rightarrow> string \<Rightarrow> error + js" where
  "js_get JUndefined key =
     Inl (Error (''Cannot read properties of undefined (reading '' @ [CHR 0x27] @ key
                   @ [CHR 0x27] @ '')''))"
| "js_get JNull key =
     Inl (Error (''Cannot read properties of null (reading '' @ [CHR 0x27] @ key
                   @ [CHR 0x27] @ '')''))"
| "js_get (JObj kvs) key = Inr (case map_of kvs key of None \<Rightarrow> JUndefined | Some v \<Rightarrow> v)"
| "js_get v key = Inr JUndefined"

text \<open>
  \<^verbatim>\<open>data.result.items.map(item => item.value)\<close>: the callback runs on the elements in
  order and the first one that throws ends the call; a value that is no array has no
  \<^verbatim>\<open>map\<close> to call (a property of that name in a parsed object is no function either).
\<close>

fun map_value :: "js list \<Rightarrow> error + js list" where
  "map_value [] = Inr []"
| "map_value (item # rest) =
     (case js_get item ''value'' of
        Inl err \<Rightarrow> Inl err
      | Inr v \<Rightarrow> (case map_value rest of Inl err \<Rightarrow> Inl err | Inr vs \<Rightarrow> Inr (v # vs)))"

fun items_map_value :: "js \<Rightarrow> error + js list" where
  "items_map_value (JArr xs) = map_value xs"
| "items_map_value v = Inl (Error ''data.result.items.map is not a function'')"

record http_request =
  req_method :: string
  req_url :: string
  req_headers :: "(string \<times> string) list"
  req_body :: "payload option"

text \<open>A prepared D1 statement: the SQL text and the bound parameters.\<close>

record statement =
  stmt_sql :: string
  stmt_binds :: "string list"

record prefix_row =
  row_prefix :: string

text \<open>The object \<^verbatim>\<open>{ results, success, error }\<close> that \<^verbatim>\<open>stmt.all()\<close> resolves to.\<close>

record all_result =
  all_results :: "prefix_row list option"
  all_success :: bool
  all_error :: "string option"

text \<open>
  What a run does to the outside world, in order: HTTP requests with what came back
  (\<open>Inl m\<close>: the promise rejected with message \<open>m\<close>), timer delays in milliseconds,
  D1 calls, and the lines written with \<^verbatim>\<open>console.warn\<close> and \<^verbatim>\<open>console.error\<close>
  (\<^verbatim>\<open>console.log\<close> output is left out of the model).
\<close>

datatype event =
    Fetch http_request "string + response"
  | SetTimeout nat
  | D1_first statement
  | D1_all statement
  | D1_run statement
  | D1_batch "statement list"
  | ConsoleWarn string
  | ConsoleError string

text \<open>
  The outside world is a state of type \<open>'w\<close> that every call may read and change. The
  D1 binding answers \<^verbatim>\<open>first()\<close>, \<^verbatim>\<open>all()\<close>, \<^verbatim>\<open>run()\<close> and \<^verbatim>\<open>batch()\<close>
  (\<open>Inl m\<close>: the call throws with message \<open>m\<close>; \<^verbatim>\<open>run\<close> and \<^verbatim>\<open>batch\<close> give
  \<^verbatim>\<open>meta.changes\<close>).
\<close>

record 'w d1 =
  d1_first :: "statement \<Rightarrow> 'w \<Rightarrow> (string + (string \<times> string) list option) \<times> 'w"
  d1_all :: "statement \<Rightarrow> 'w \<Rightarrow> (string + all_result) \<times> 'w"
  d1_run :: "statement \<Rightarrow> 'w \<Rightarrow> (string + nat) \<times> 'w"
  d1_batch :: "statement list \<Rightarrow> 'w \<Rightarrow> (string + nat list) \<times> 'w"

record 'w env =
  DB :: "'w d1 option"
  ACCOUNT_ID :: "string option"
  LIST_ID :: "string option"
  API_EMAIL :: "string option"
  API_KEY :: "string option"

text \<open>
  The platform's globals: \<^verbatim>\<open>fetch\<close> with the read of the body text (\<open>Inl m\<close>: one of
  the two promises rejected with message \<open>m\<close>), \<^verbatim>\<open>JSON.parse\<close> (\<open>None\<close>: it throws),
  \<^verbatim>\<open>JSON.stringify\<close> and \<^verbatim>\<open>new Date().toISOString()\<close>.
\<close>

record 'w globals =
  global_fetch :: "http_request \<Rightarrow> 'w \<Rightarrow> (string + response) \<times> 'w"
  JSON_parse :: "string \<Rightarrow> js option"
  JSON_stringify :: "js \<Rightarrow> string"
  Date_toISOString :: "'w \<Rightarrow> string"

subsection \<open>Asynchronous computations\<close>

text \<open>
  An \<^verbatim>\<open>async\<close> function takes the world and the trace so far and either never settles
  (\<open>None\<close>), or rejects with an error (\<open>Inl\<close>) or resolves with a value (\<open>Inr\<close>),
  leaving a new world and a longer trace.
\<close>

type_synonym 'w state = "'w \<times> event list"

type_synonym ('w, 'a) async = "'w state \<Rightarrow> ((error + 'a) \<times> 'w state) option"

definition resolve :: "'a \<Rightarrow> ('w, 'a) async" where
  "resolve x = (\<lambda>s. Some (Inr x, s))"

definition reject :: "error \<Rightarrow> ('w, 'a) async" where
  "reject e = (\<lambda>s. Some (Inl e, s))"

definition await :: "('w, 'a) async \<Rightarrow> ('a \<Rightarrow> ('w, 'b) async) \<Rightarrow> ('w, 'b) async" where
  "await m f =
     (\<lambda>s. case m s of
            None \<Rightarrow> None
          | Some (Inl e, s') \<Rightarrow> Some (Inl e, s')
          | Some (Inr x, s') \<Rightarrow> f x s')"

definition try_catch :: "('w, 'a) async \<Rightarrow> (error \<Rightarrow> ('w, 'a) async) \<Rightarrow> ('w, 'a) async" where
  "try_catch m h =
     (\<lambda>s. case m s of
            None \<Rightarrow> None
          | Some (Inl e, s') \<Rightarrow> h e s'
          | Some (Inr x, s') \<Rightarrow> Some (Inr x, s'))"

definition emit :: "event \<Rightarrow> ('w, unit) async" where
  "emit e = (\<lambda>s. Some (Inr (), (fst s, snd s @ [e])))"

text \<open>A step that does not wait: it has thrown or it has a value.\<close>

definition completion :: "error + 'a \<Rightarrow> ('w, 'a) async" where
  "completion r = (\<lambda>s. Some (r, s))"

definition settle :: "(string + 'a) \<Rightarrow> error + 'a" where
  "settle r = (case r of Inl m \<Rightarrow> Inl (Error m) | Inr x \<Rightarrow> Inr x)"

definition do_fetch :: "'w globals \<Rightarrow> http_request \<Rightarrow> ('w, response) async" where
  "do_fetch g req =
     (\<lambda>s. case global_fetch g req (fst s) of
            (r, w') \<Rightarrow> Some (settle r, (w', snd s @ [Fetch req r])))"

definition stmt_first :: "'w d1 \<Rightarrow> statement \<Rightarrow> ('w, (string \<times> string) list option) async" where
  "stmt_first db st =
     (\<lambda>s. case d1_first db st (fst s) of
            (r, w') \<Rightarrow> Some (settle r, (w', snd s @ [D1_first st])))"

definition stmt_all :: "'w d1 \<Rightarrow> statement \<Rightarrow> ('w, all_result) async" where
  "stmt_all db st =
     (\<lambda>s. case d1_all db st (fst s) of
            (r, w') \<Rightarrow> Some (settle r, (w', snd s @ [D1_all st])))"

definition stmt_run :: "'w d1 \<Rightarrow> statement \<Rightarrow> ('w, nat) async" where
  "stmt_run db st =
     (\<lambda>s. case d1_run db st (fst s) of
            (r, w') \<Rightarrow> Some (settle r, (w', snd s @ [D1_run st])))"

definition DB_batch :: "'w d1 \<Rightarrow> statement list \<Rightarrow> ('w, nat list) async" where
  "DB_batch db sts =
     (\<lambda>s. case d1_batch db sts (fst s) of
            (r, w') \<Rightarrow> Some (settle r, (w', snd s @ [D1_batch sts])))"

subsection \<open>The worker's functions\<close>

text \<open>\<^verbatim>\<open>isValidCIDR\<close> is defined above; the others follow in the order of the source.\<close>

definition falsy :: "string option \<Rightarrow> bool" where
  "falsy v = (v = None \<or> v = Some [])"

definition str :: "string option \<Rightarrow> string" where
  "str v = (case v of None \<Rightarrow> ''undefined'' | Some s \<Rightarrow> s)"

definition fetchDesiredPrefixes :: "'w d1 \<Rightarrow> string \<Rightarrow> ('w, string list) async" where
  "fetchDesiredPrefixes db table =
     try_catch
       (await (stmt_all db
                 \<lparr>stmt_sql = ''SELECT prefix FROM '' @ table @ '' WHERE active = 1'',
                  stmt_binds = []\<rparr>) (\<lambda>r.
          if \<not> all_success r then
            reject (Error (''Query failed: '' @
              (if falsy (all_error r) then ''unknown error'' else str (all_error r))))
          else case all_results r of
            None \<Rightarrow> reject (Error ''No results returned from query'')
          | Some results \<Rightarrow>
              if length results = 0 then
                await (stmt_first db
                         \<lparr>stmt_sql = ''SELECT name FROM sqlite_master WHERE type='' @ [CHR 0x27]
                            @ ''table'' @ [CHR 0x27] @ '' AND name = ?'',
                          stmt_binds = [table]\<rparr>) (\<lambda>tableCheck.
                  if tableCheck = None then
                    reject (Error (''Table '' @ table @ '' does not exist in the database''))
                  else
                    await (stmt_all db
                             \<lparr>stmt_sql = ''SELECT prefix, active FROM '' @ table @ '' LIMIT 5'',
                              stmt_binds = []\<rparr>) (\<lambda>sample.
                    await (stmt_all db
                             \<lparr>stmt_sql = ''SELECT active, COUNT(*) as count FROM '' @ table
                                @ '' GROUP BY active'',
                              stmt_binds = []\<rparr>) (\<lambda>activeCheck.
                    reject (Error (''No prefixes found in '' @ table @ '' with active = 1'')))))
              else resolve (map row_prefix results)))
       (\<lambda>err. reject (Error (''Failed to fetch desired prefixes from '' @ table @ '': ''
                  @ message err)))"

definition gateway_url :: "'w env \<Rightarrow> string" where
  "gateway_url env =
     ''https://api.cloudflare.com/client/v4/accounts/'' @ str (ACCOUNT_ID env)
       @ ''/gateway/lists/'' @ str (LIST_ID env)"

definition gateway_headers :: "'w env \<Rightarrow> (string \<times> string) list" where
  "gateway_headers env =
     [(''X-Auth-Email'', str (API_EMAIL env)),
      (''X-Auth-Key'', str (API_KEY env)),
      (''Content-Type'', ''application/json'')]"

text \<open>
  The branch of \<^verbatim>\<open>fetchCurrentGatewayList\<close> that warns and returns the empty list.
\<close>

definition no_items :: "('w, js list) async" where
  "no_items =
     await (emit (ConsoleWarn ''[API WARN] No items in Gateway list response''))
       (\<lambda>_. resolve [])"

text \<open>
  The condition \<^verbatim>\<open>!data.success || !data.result || !data.result.items\<close> is read from
  the left, each read as far as the one before it was truthy.
\<close>

definition fetchCurrentGatewayList :: "'w globals \<Rightarrow> 'w env \<Rightarrow> ('w, js list) async" where
  "fetchCurrentGatewayList g env =
     try_catch
       (await (do_fetch g \<lparr>req_method = ''GET'', req_url = gateway_url env,
                            req_headers = gateway_headers env, req_body = None\<rparr>) (\<lambda>res.
          if \<not> ok res then
            reject (Error (''API request failed with status '' @ show_nat (res_status res)
                      @ '': '' @ res_text res))
          else case JSON_parse g (res_text res) of
            None \<Rightarrow> reject (Error (''Failed to parse API response: '' @ res_text res))
          | Some data \<Rightarrow>
              await (completion (js_get data ''success'')) (\<lambda>success.
              if \<not> truthy success then no_items
              else
                await (completion (js_get data ''result'')) (\<lambda>result.
                if \<not> truthy result then no_items
                else
                  await (completion (js_get result ''items'')) (\<lambda>items.
                  if \<not> truthy items then no_items
                  else completion (items_map_value items))))))
       (\<lambda>err. reject (Error (''Failed to fetch Gateway list: '' @ message err)))"

text \<open>
  The catch block of \<^verbatim>\<open>updateGatewayListSingle\<close>: it writes the label and the message
  to the console and throws the error it caught.
\<close>

definition single_catch :: "string \<Rightarrow> error \<Rightarrow> ('w, 'a) async" where
  "single_catch batchLabel err =
     await (emit (ConsoleError (''[ERROR] Failed to update Gateway list ('' @ batchLabel
              @ ''): '' @ message err)))
       (\<lambda>_. reject err)"

text \<open>
  On status 429 the function returns its own recursive call, which is not awaited inside
  the \<^verbatim>\<open>try\<close>: the outer catch block never sees what the inner call throws. Nothing
  bounds the recursion, so the function is partial.
\<close>

partial_function (option) updateGatewayListSingle ::
  "'w globals \<Rightarrow> string \<Rightarrow> (string \<times> string) list \<Rightarrow> payload \<Rightarrow> string \<Rightarrow> 'w state
     \<Rightarrow> ((error + js) \<times> 'w state) option"
where
  "updateGatewayListSingle g url headers pl batchLabel s =
     (if payload_append pl = None \<and> payload_remove pl = None then Some (Inr JUndefined, s)
      else
        (case do_fetch g \<lparr>req_method = ''PATCH'', req_url = url, req_headers = headers,
                           req_body = Some pl\<rparr> s of
          None \<Rightarrow> None
        | Some (Inl err, s1) \<Rightarrow> single_catch batchLabel err s1
        | Some (Inr res, s1) \<Rightarrow>
            if \<not> ok res then
              if res_status res = 429 then
                updateGatewayListSingle g url headers pl batchLabel
                  (fst s1, snd s1 @ [ConsoleWarn (''[RETRY] '' @ batchLabel
                      @ '': Rate limit hit, retrying after delay''), SetTimeout 1000])
              else
                single_catch batchLabel
                  (Error (''API request failed with status '' @ show_nat (res_status res)
                     @ '': '' @ res_text res)) s1
            else
              (case JSON_parse g (res_text res) of
                None \<Rightarrow>
                  single_catch batchLabel
                    (Error (''Failed to parse API response: '' @ res_text res)) s1
              | Some json \<Rightarrow>
                  (case js_get json ''success'' of
                    Inl err \<Rightarrow> single_catch batchLabel err s1
                  | Inr success \<Rightarrow>
                      if \<not> truthy success then
                        (case js_get json ''errors'' of
                          Inl err \<Rightarrow> single_catch batchLabel err s1
                        | Inr errors \<Rightarrow>
                            single_catch batchLabel
                              (Error (''Update failed: ''
                                 @ JSON_stringify g (if truthy errors then errors else json))) s1)
                      else
                        (case js_get json ''result'' of
                          Inl err \<Rightarrow> single_catch batchLabel err s1
                        | Inr result \<Rightarrow> Some (Inr result, s1))))))"

text \<open>
  The splitting loop \<^verbatim>\<open>for (let i = 0; i < xs.length; i += batchSize)\<close>; with a batch
  size of zero it never ends.
\<close>

partial_function (option) split_loop ::
  "'a list \<Rightarrow> nat \<Rightarrow> nat \<Rightarrow> 'a list list \<Rightarrow> 'a list list option"
where
  "split_loop xs batchSize i batches =
     (if i < length xs
      then split_loop xs batchSize (i + batchSize) (batches @ [slice xs i (i + batchSize)])
      else Some batches)"

text \<open>The loop \<^verbatim>\<open>for (let i = 0; i < batches.length; i++)\<close> with an awaited body.\<close>

fun for_each_batch ::
  "(nat \<Rightarrow> 'a \<Rightarrow> ('w, 'b) async) \<Rightarrow> nat \<Rightarrow> 'a list \<Rightarrow> ('w, unit) async" where
  "for_each_batch body i [] = resolve ()"
| "for_each_batch body i (batch # rest) =
     await (body i batch) (\<lambda>_. for_each_batch body (Suc i) rest)"

definition updateGatewayListBatched ::
  "'w globals \<Rightarrow> 'w env \<Rightarrow> js list \<Rightarrow> js list \<Rightarrow> nat \<Rightarrow> ('w, unit) async" where
  "updateGatewayListBatched g env toAdd toRemove batchSize =
     (case split_loop toAdd batchSize 0 [] of
        None \<Rightarrow> (\<lambda>s. None)
      | Some addBatches \<Rightarrow>
     (case split_loop toRemove batchSize 0 [] of
        None \<Rightarrow> (\<lambda>s. None)
      | Some removeBatches \<Rightarrow>
          await (for_each_batch (\<lambda>i batch.
                   updateGatewayListSingle g (gateway_url env) (gateway_headers env)
                     \<lparr>payload_append = Some (map (\<lambda>p. \<lparr>item_value = p\<rparr>) batch),
                      payload_remove = None\<rparr>
                     (''Append batch '' @ show_nat (i + 1) @ ''/''
                        @ show_nat (length addBatches)))
                   0 addBatches) (\<lambda>_.
          for_each_batch (\<lambda>i batch.
                   updateGatewayListSingle g (gateway_url env) (gateway_headers env)
                     \<lparr>payload_append = None,
                      payload_remove = Some (map (\<lambda>p. \<lparr>item_value = p\<rparr>) batch)\<rparr>
                     (''Remove batch '' @ show_nat (i + 1) @ ''/''
                        @ show_nat (length removeBatches)))
                   0 removeBatches)))"

definition test_catch :: "error \<Rightarrow> ('w, 'a) async" where
  "test_catch err =
     await (emit (ConsoleError (''[ERROR] Test PATCH failed: '' @ message err)))
       (\<lambda>_. reject err)"

definition testGatewayListUpdate :: "'w globals \<Rightarrow> 'w env \<Rightarrow> js \<Rightarrow> ('w, unit) async" where
  "testGatewayListUpdate g env pfx =
     try_catch
       (await (do_fetch g \<lparr>req_method = ''PATCH'', req_url = gateway_url env,
                            req_headers = gateway_headers env,
                            req_body = Some \<lparr>payload_append = Some [\<lparr>item_value = pfx\<rparr>],
                                             payload_remove = None\<rparr>\<rparr>) (\<lambda>res.
          if \<not> ok res then
            reject (Error (''Test API request failed with status '' @ show_nat (res_status res)
                      @ '': '' @ res_text res))
          else case JSON_parse g (res_text res) of
            None \<Rightarrow> reject (Error (''Failed to parse test API response: '' @ res_text res))
          | Some json \<Rightarrow>
              await (completion (js_get json ''success'')) (\<lambda>success.
              if \<not> truthy success then
                await (completion (js_get json ''errors'')) (\<lambda>errors.
                reject (Error (''Test update failed: ''
                          @ JSON_stringify g (if truthy errors then errors else json))))
              else resolve ())))
       test_catch"

text \<open>
  The insertion loop of \<^verbatim>\<open>updateSyncedPrefixes\<close>, in steps of 100; it stops at the
  first batch that throws.
\<close>

function insert_loop ::
  "'w d1 \<Rightarrow> string \<Rightarrow> string list \<Rightarrow> nat \<Rightarrow> 'w state \<Rightarrow> ((error + unit) \<times> 'w state) option"
where
  "insert_loop db table pfxs i s =
     (if i < length pfxs then
        (case DB_batch db
                (map (\<lambda>p. \<lparr>stmt_sql =
                          ''INSERT OR IGNORE INTO synced_prefixes (asn, prefix) VALUES (?, ?)'',
                        stmt_binds = [table, p]\<rparr>)
                   (slice pfxs i (i + 100))) s of
          None \<Rightarrow> None
        | Some (Inl err, s') \<Rightarrow> Some (Inl err, s')
        | Some (Inr results, s') \<Rightarrow> insert_loop db table pfxs (i + 100) s')
      else Some (Inr (), s))"
  by pat_completeness auto
termination
  by (relation "measure (\<lambda>(db, table, pfxs, i, s). length pfxs - i)") auto

declare insert_loop.simps [simp del]

definition updateSyncedPrefixes :: "'w d1 \<Rightarrow> string \<Rightarrow> string list \<Rightarrow> ('w, unit) async" where
  "updateSyncedPrefixes db table pfxs =
     try_catch
       (await (stmt_run db \<lparr>stmt_sql = ''DELETE FROM synced_prefixes WHERE asn = ?'',
                             stmt_binds = [table]\<rparr>) (\<lambda>deleteResult.
          if length pfxs = 0 then resolve ()
          else insert_loop db table pfxs 0))
       (\<lambda>err. reject (Error (''Failed to update synced prefixes for '' @ table @ '': ''
                  @ message err)))"

definition recordSyncTime :: "'w globals \<Rightarrow> 'w d1 \<Rightarrow> string \<Rightarrow> ('w, unit) async" where
  "recordSyncTime g db asn =
     try_catch
       (\<lambda>s. await (stmt_run db
                 \<lparr>stmt_sql = ''INSERT INTO sync_state (asn, last_run)'' @ [CHR 0x0A]
                    @ ''       VALUES (?, ?)'' @ [CHR 0x0A]
                    @ ''       ON CONFLICT(asn) DO UPDATE SET last_run = excluded.last_run'',
                  stmt_binds = [asn, Date_toISOString g (fst s)]\<rparr>) (\<lambda>_. resolve ()) s)
       (\<lambda>err. reject (Error (''Failed to record sync time for '' @ asn @ '': ''
                  @ message err)))"

text \<open>
  The diff of \<^verbatim>\<open>syncASN\<close> (the four lines after the comment
  \<^verbatim>\<open>// Compute prefixes to add/remove\<close>), for lists of values of one type.
\<close>

definition diff_stage :: "'a list \<Rightarrow> 'a list \<Rightarrow> 'a list \<times> 'a list" where
  "diff_stage validDesired existing =
     (let desiredSet = new_Set validDesired;
          existingSet = new_Set existing;
          toAdd = filter (\<lambda>p. \<not> Set_has existingSet p) validDesired;
          toRemove = filter (\<lambda>p. \<not> Set_has desiredSet p) existing
      in (toAdd, toRemove))"

text \<open>
  What \<^verbatim>\<open>syncASN\<close> does once the desired and the existing prefixes are loaded: filter
  and deduplicate, diff, update the remote list, probe, and only then write local state.
  The desired prefixes are strings; where they meet the values of the remote list (in the
  two sets and in the payloads) they are the string values \<open>JStr p\<close>. A \<^verbatim>\<open>Set\<close> tells
  objects and arrays apart by identity and the model by content; the worker asks the set
  of the remote values for strings only, so the two agree.
\<close>

definition reconcile ::
  "'w globals \<Rightarrow> 'w env \<Rightarrow> 'w d1 \<Rightarrow> string \<Rightarrow> string list \<Rightarrow> js list \<Rightarrow> ('w, unit) async"
where
  "reconcile g env db asn desired existing =
     (let validDesired = new_Set (filter isValidCIDR desired) in
      await (if length validDesired \<noteq> length desired
             then emit (ConsoleWarn (''[WARN] Skipped ''
                    @ show_nat (length desired - length validDesired)
                    @ '' invalid or duplicate prefixes''))
             else resolve ()) (\<lambda>_.
      if length validDesired = 0 \<and> length desired > 0 then
        reject (Error ''No valid prefixes after filtering; check prefix format'')
      else
        (case diff_stage (map JStr validDesired) existing of (toAdd, toRemove) \<Rightarrow>
          await (updateGatewayListBatched g env toAdd toRemove 50) (\<lambda>_.
          await (if length toAdd > 0 then testGatewayListUpdate g env (toAdd ! 0)
                 else resolve ()) (\<lambda>_.
          await (updateSyncedPrefixes db asn validDesired) (\<lambda>_.
          recordSyncTime g db asn))))))"

definition syncASN :: "'w globals \<Rightarrow> 'w env \<Rightarrow> string \<Rightarrow> ('w, unit) async" where
  "syncASN g env asn =
     (if \<not> regex_test asn_regex asn then reject (Error ''Invalid ASN format'')
      else case DB env of
        None \<Rightarrow> reject (Error ''Database not initialized'')
      | Some db \<Rightarrow>
          if falsy (ACCOUNT_ID env) \<or> falsy (LIST_ID env) \<or> falsy (API_EMAIL env)
               \<or> falsy (API_KEY env)
          then reject (Error ''Missing Cloudflare API credentials'')
          else
            await (stmt_first db \<lparr>stmt_sql = ''SELECT last_run FROM sync_state WHERE asn = ?'',
                                   stmt_binds = [asn]\<rparr>) (\<lambda>lastRunRow.
            await (fetchDesiredPrefixes db asn) (\<lambda>desired.
            await (fetchCurrentGatewayList g env) (\<lambda>existing.
            reconcile g env db asn desired existing))))"

text \<open>
  The HTTP entry point. The request is given by what \<^verbatim>\<open>url.searchParams.get("asn")\<close>
  returns (\<open>None\<close> for \<^verbatim>\<open>null\<close>); the answer is the status and the body text.
\<close>

definition fetch :: "'w globals \<Rightarrow> 'w env \<Rightarrow> string option \<Rightarrow> ('w, response) async" where
  "fetch g env asn_param =
     try_catch
       (if falsy asn_param \<or> \<not> regex_test asn_regex (str asn_param) then
          resolve \<lparr>res_status = 400, res_text = ''Missing or invalid ?asn=ASxxxx parameter''\<rparr>
        else
          await (syncASN g env (str asn_param)) (\<lambda>_.
          resolve \<lparr>res_status = 200, res_text = ''Sync complete''\<rparr>))
       (\<lambda>err.
          await (emit (ConsoleError (''[ERROR] '' @ message err))) (\<lambda>_.
          resolve \<lparr>res_status = 500, res_text = ''Sync failed: '' @ message err\<rparr>))"

subsection \<open>Reading a trace\<close>

fun is_patch :: "event \<Rightarrow> bool" where
  "is_patch (Fetch req r) = (req_method req = ''PATCH'')"
| "is_patch ev = False"

fun is_fetch :: "event \<Rightarrow> bool" where
  "is_fetch (Fetch req r) = True"
| "is_fetch ev = False"

fun is_d1 :: "event \<Rightarrow> bool" where
  "is_d1 (D1_first st) = True"
| "is_d1 (D1_all st) = True"
| "is_d1 (D1_run st) = True"
| "is_d1 (D1_batch sts) = True"
| "is_d1 ev = False"

text \<open>The writes to local state: \<^verbatim>\<open>run()\<close> and \<^verbatim>\<open>batch()\<close> calls.\<close>

fun is_local_write :: "event \<Rightarrow> bool" where
  "is_local_write (D1_run st) = True"
| "is_local_write (D1_batch sts) = True"
| "is_local_write ev = False"

text \<open>The payloads of the PATCH requests of a trace, in the order they were sent.\<close>

fun patch_payloads :: "event list \<Rightarrow> payload list" where
  "patch_payloads [] = []"
| "patch_payloads (Fetch req r # tr) =
     (if req_method req = ''PATCH''
      then (case req_body req of None \<Rightarrow> patch_payloads tr | Some pl \<Rightarrow> pl # patch_payloads tr)
      else patch_payloads tr)"
| "patch_payloads (ev # tr) = patch_payloads tr"

text \<open>
  \<open>emits P m\<close>: whenever \<open>m\<close> settles, it has only added events that satisfy \<open>P\<close> to
  the trace.
\<close>

definition emits :: "(event \<Rightarrow> bool) \<Rightarrow> ('w, 'a) async \<Rightarrow> bool" where
  "emits P m =
     (\<forall>s r s'. m s = Some (r, s') \<longrightarrow> (\<exists>evs. snd s' = snd s @ evs \<and> list_all P evs))"

text \<open>Events that touch neither the local store nor the remote list.\<close>

fun is_console_or_timer :: "event \<Rightarrow> bool" where
  "is_console_or_timer (SetTimeout n) = True"
| "is_console_or_timer (ConsoleWarn m) = True"
| "is_console_or_timer (ConsoleError m) = True"
| "is_console_or_timer ev = False"

subsection \<open>Consecutive chunks\<close>

text \<open>
  The consecutive chunks of at most \<open>n\<close> elements of a list: the reference against which
  the splitting loop is compared.
\<close>

function chunks :: "nat \<Rightarrow> 'a list \<Rightarrow> 'a list list" where
  "chunks n xs = (if n = 0 \<or> xs = [] then [] else take n xs # chunks n (drop n xs))"
  by pat_completeness auto
termination
  by (relation "measure (\<lambda>(n, xs). length xs)") auto

declare chunks.simps [simp del]

definition append_payload :: "js list \<Rightarrow> payload" where
  "append_payload batch =
     \<lparr>payload_append = Some (map (\<lambda>p. \<lparr>item_value = p\<rparr>) batch), payload_remove = None\<rparr>"

definition remove_payload :: "js list \<Rightarrow> payload" where
  "remove_payload batch =
     \<lparr>payload_append = None, payload_remove = Some (map (\<lambda>p. \<lparr>item_value = p\<rparr>) batch)\<rparr>"

definition patch_request :: "'w env \<Rightarrow> payload \<Rightarrow> http_request" where
  "patch_request env pl =
     \<lparr>req_method = ''PATCH'', req_url = gateway_url env, req_headers = gateway_headers env,
      req_body = Some pl\<rparr>"

text \<open>
  A response that the updater takes as success: 2xx, parsable, not \<^verbatim>\<open>null\<close>, with a
  truthy \<^verbatim>\<open>success\<close>.
\<close>

definition success_flag :: "js \<Rightarrow> bool" where
  "success_flag json = (case js_get json ''success'' of Inl err \<Rightarrow> False | Inr v \<Rightarrow> truthy v)"

definition accepted :: "'w globals \<Rightarrow> string + response \<Rightarrow> bool" where
  "accepted g r =
     (case r of
        Inl m \<Rightarrow> False
      | Inr res \<Rightarrow>
          ok res \<and> (case JSON_parse g (res_text res) of None \<Rightarrow> False
                     | Some json \<Rightarrow> success_flag json))"


subsection \<open>Replies to one PATCH request\<close>

definition rate_limited :: "string + response \<Rightarrow> bool" where
  "rate_limited r = (case r of Inl m \<Rightarrow> False | Inr res \<Rightarrow> res_status res = 429)"

text \<open>What the retry branch adds to the trace: the request, the warning, the delay.\<close>

definition retry_events :: "string \<Rightarrow> http_request \<Rightarrow> string + response \<Rightarrow> event list" where
  "retry_events batchLabel req r =
     [Fetch req r,
      ConsoleWarn (''[RETRY] '' @ batchLabel @ '': Rate limit hit, retrying after delay''),
      SetTimeout 1000]"

text \<open>
  How one attempt ends when the reply is not a 429: the promise's value (the batch label
  is not among the arguments of the error) and what is added to the trace.
\<close>

definition body_result :: "js \<Rightarrow> js" where
  "body_result json = (case js_get json ''result'' of Inl err \<Rightarrow> JUndefined | Inr v \<Rightarrow> v)"

definition errors_or_body :: "js \<Rightarrow> js" where
  "errors_or_body json =
     (case js_get json ''errors'' of
        Inl err \<Rightarrow> json
      | Inr errors \<Rightarrow> if truthy errors then errors else json)"

definition attempt_result :: "'w globals \<Rightarrow> string + response \<Rightarrow> error + js" where
  "attempt_result g r =
     (case r of
        Inl m \<Rightarrow> Inl (Error m)
      | Inr res \<Rightarrow>
          if \<not> ok res then
            Inl (Error (''API request failed with status '' @ show_nat (res_status res)
                          @ '': '' @ res_text res))
          else (case JSON_parse g (res_text res) of
                  None \<Rightarrow> Inl (Error (''Failed to parse API response: '' @ res_text res))
                | Some json \<Rightarrow>
                    (case js_get json ''success'' of
                       Inl err \<Rightarrow> Inl err
                     | Inr success \<Rightarrow>
                         if \<not> truthy success
                         then Inl (Error (''Update failed: ''
                                     @ JSON_stringify g (errors_or_body json)))
                         else Inr (body_result json))))"

definition attempt_events ::
  "'w globals \<Rightarrow> string \<Rightarrow> http_request \<Rightarrow> string + response \<Rightarrow> event list" where
  "attempt_events g batchLabel req r =
     Fetch req r #
       (case attempt_result g r of
          Inl err \<Rightarrow> [ConsoleError (''[ERROR] Failed to update Gateway list ('' @ batchLabel
                        @ ''): '' @ message err)]
        | Inr x \<Rightarrow> [])"

text \<open>The worlds and replies met when the same request is sent again and again.\<close>

fun world_after :: "'w globals \<Rightarrow> http_request \<Rightarrow> nat \<Rightarrow> 'w \<Rightarrow> 'w" where
  "world_after g req 0 w = w"
| "world_after g req (Suc n) w = world_after g req n (snd (global_fetch g req w))"

definition reply_after :: "'w globals \<Rightarrow> http_request \<Rightarrow> nat \<Rightarrow> 'w \<Rightarrow> string + response" where
  "reply_after g req n w = fst (global_fetch g req (world_after g req n w))"

fun retries :: "'w globals \<Rightarrow> string \<Rightarrow> http_request \<Rightarrow> nat \<Rightarrow> 'w \<Rightarrow> event list" where
  "retries g batchLabel req 0 w = []"
| "retries g batchLabel req (Suc n) w =
     retry_events batchLabel req (fst (global_fetch g req w))
       @ retries g batchLabel req n (snd (global_fetch g req w))"

subsection \<open>Requests and statements by name\<close>

definition get_request :: "'w env \<Rightarrow> http_request" where
  "get_request env =
     \<lparr>req_method = ''GET'', req_url = gateway_url env, req_headers = gateway_headers env,
      req_body = None\<rparr>"

definition last_run_query :: "string \<Rightarrow> statement" where
  "last_run_query asn =
     \<lparr>stmt_sql = ''SELECT last_run FROM sync_state WHERE asn = ?'', stmt_binds = [asn]\<rparr>"

definition desired_query :: "string \<Rightarrow> statement" where
  "desired_query table =
     \<lparr>stmt_sql = ''SELECT prefix FROM '' @ table @ '' WHERE active = 1'', stmt_binds = []\<rparr>"

definition table_check :: "string \<Rightarrow> statement" where
  "table_check table =
     \<lparr>stmt_sql = ''SELECT name FROM sqlite_master WHERE type='' @ [CHR 0x27]
        @ ''table'' @ [CHR 0x27] @ '' AND name = ?'',
      stmt_binds = [table]\<rparr>"

definition sample_query :: "string \<Rightarrow> statement" where
  "sample_query table =
     \<lparr>stmt_sql = ''SELECT prefix, active FROM '' @ table @ '' LIMIT 5'', stmt_binds = []\<rparr>"

definition active_query :: "string \<Rightarrow> statement" where
  "active_query table =
     \<lparr>stmt_sql = ''SELECT active, COUNT(*) as count FROM '' @ table @ '' GROUP BY active'',
      stmt_binds = []\<rparr>"

text \<open>The ASN format in words: the letters AS and then one or more decimal digits.\<close>

definition asn_form :: "string \<Rightarrow> bool" where
  "asn_form asn = (\<exists>ds. asn = ''AS'' @ ds \<and> ds \<noteq> [] \<and> set ds \<subseteq> set ''0123456789'')"

text \<open>Reads of the local store.\<close>

fun is_local_read :: "event \<Rightarrow> bool" where
  "is_local_read (D1_first st) = True"
| "is_local_read (D1_all st) = True"
| "is_local_read ev = False"

text \<open>
  No PATCH request of these events has failed: each reply was taken as success or was a
  429. And: every chunk of the two lists has a request that was taken as success.
\<close>

definition no_failed_patch :: "'w globals \<Rightarrow> event list \<Rightarrow> bool" where
  "no_failed_patch g evs =
     (\<forall>req rep. Fetch req rep \<in> set evs \<and> req_method req = ''PATCH''
        \<longrightarrow> accepted g rep \<or> rate_limited rep)"

definition all_applied ::
  "'w globals \<Rightarrow> 'w env \<Rightarrow> js list \<Rightarrow> js list \<Rightarrow> event list \<Rightarrow> bool" where
  "all_applied g env toAdd toRemove evs =
     (\<forall>pl \<in> append_payload ` set (chunks 50 toAdd) \<union> remove_payload ` set (chunks 50 toRemove).
        \<exists>rep. accepted g rep \<and> Fetch (patch_request env pl) rep \<in> set evs)"

subsection \<open>Parts of a run by name\<close>

text \<open>How the probe ends, given the reply to its request.\<close>

definition probe_result :: "'w globals \<Rightarrow> string + response \<Rightarrow> error + unit" where
  "probe_result g r =
     (case r of
        Inl m \<Rightarrow> Inl (Error m)
      | Inr res \<Rightarrow>
          if \<not> ok res then
            Inl (Error (''Test API request failed with status '' @ show_nat (res_status res)
                          @ '': '' @ res_text res))
          else (case JSON_parse g (res_text res) of
                  None \<Rightarrow> Inl (Error (''Failed to parse test API response: '' @ res_text res))
                | Some json \<Rightarrow>
                    (case js_get json ''success'' of
                       Inl err \<Rightarrow> Inl err
                     | Inr success \<Rightarrow>
                         if \<not> truthy success
                         then Inl (Error (''Test update failed: ''
                                     @ JSON_stringify g (errors_or_body json)))
                         else Inr ())))"

text \<open>
  What the reader of the remote list makes of a parsed body: it throws, it finds no
  items (\<open>None\<close>), or it has the values.
\<close>

definition list_reading :: "js \<Rightarrow> error + js list option" where
  "list_reading data =
     (case js_get data ''success'' of
        Inl err \<Rightarrow> Inl err
      | Inr success \<Rightarrow>
          if \<not> truthy success then Inr None
          else (case js_get data ''result'' of
                  Inl err \<Rightarrow> Inl err
                | Inr result \<Rightarrow>
                    if \<not> truthy result then Inr None
                    else (case js_get result ''items'' of
                            Inl err \<Rightarrow> Inl err
                          | Inr items \<Rightarrow>
                              if \<not> truthy items then Inr None
                              else (case items_map_value items of
                                      Inl err \<Rightarrow> Inl err
                                    | Inr vs \<Rightarrow> Inr (Some vs)))))"

text \<open>
  The same in words. The value of a key: what an object has under it, and
  \<^verbatim>\<open>undefined\<close> for an object without it and for every other value. A body has items
  when \<^verbatim>\<open>success\<close>, \<^verbatim>\<open>result\<close> and the \<^verbatim>\<open>items\<close> of the result are truthy. A body
  cannot be read when it is \<^verbatim>\<open>null\<close>, or when it has items that are no array or an
  array with a \<^verbatim>\<open>null\<close> in it.
\<close>

definition nullish :: "js \<Rightarrow> bool" where
  "nullish v = (v = JUndefined \<or> v = JNull)"

definition js_prop :: "js \<Rightarrow> string \<Rightarrow> js" where
  "js_prop v key =
     (case v of
        JObj kvs \<Rightarrow> (case map_of kvs key of None \<Rightarrow> JUndefined | Some x \<Rightarrow> x)
      | _ \<Rightarrow> JUndefined)"

definition has_items :: "js \<Rightarrow> bool" where
  "has_items data =
     (truthy (js_prop data ''success'') \<and> truthy (js_prop data ''result'')
      \<and> truthy (js_prop (js_prop data ''result'') ''items''))"

definition unreadable :: "js \<Rightarrow> bool" where
  "unreadable data =
     (nullish data
      \<or> has_items data
        \<and> (case js_prop (js_prop data ''result'') ''items'' of
              JArr xs \<Rightarrow> list_ex nullish xs
            | _ \<Rightarrow> True))"

definition item_values :: "js \<Rightarrow> js list" where
  "item_values data =
     (case js_prop (js_prop data ''result'') ''items'' of
        JArr xs \<Rightarrow> map (\<lambda>item. js_prop item ''value'') xs
      | _ \<Rightarrow> [])"

text \<open>The valid, deduplicated desired prefixes, and the warning about the skipped ones.\<close>

definition valid_desired :: "string list \<Rightarrow> string list" where
  "valid_desired desired = new_Set (filter isValidCIDR desired)"

definition warn_skipped :: "string list \<Rightarrow> event list" where
  "warn_skipped desired =
     (if length (valid_desired desired) \<noteq> length desired
      then [ConsoleWarn (''[WARN] Skipped ''
              @ show_nat (length desired - length (valid_desired desired))
              @ '' invalid or duplicate prefixes'')]
      else [])"

text \<open>
  The three loads of \<^verbatim>\<open>syncASN\<close> before the diff: the last run, the desired prefixes,
  the remote list.
\<close>

definition load ::
  "'w globals \<Rightarrow> 'w env \<Rightarrow> 'w d1 \<Rightarrow> string \<Rightarrow> ('w, string list \<times> js list) async" where
  "load g env db asn =
     await (stmt_first db (last_run_query asn)) (\<lambda>lastRunRow.
     await (fetchDesiredPrefixes db asn) (\<lambda>desired.
     await (fetchCurrentGatewayList g env) (\<lambda>existing.
     resolve (desired, existing))))"



text \<open>A computation that settles from every state.\<close>

definition settles :: "('w, 'a) async \<Rightarrow> bool" where
  "settles m = (\<forall>s. m s \<noteq> None)"

text \<open>
  The diagnostic queries after a query that gave no rows, from the world they start in:
  the cause that the error names, the world left and the calls made.
\<close>

definition zero_rows_diagnosis :: "'w d1 \<Rightarrow> string \<Rightarrow> 'w \<Rightarrow> string \<times> 'w \<times> event list" where
  "zero_rows_diagnosis db table w =
     (case d1_first db (table_check table) w of
        (Inl m, w1) \<Rightarrow> (m, w1, [D1_first (table_check table)])
      | (Inr None, w1) \<Rightarrow>
          (''Table '' @ table @ '' does not exist in the database'', w1,
           [D1_first (table_check table)])
      | (Inr (Some tableCheck), w1) \<Rightarrow>
          (case d1_all db (sample_query table) w1 of
             (Inl m, w2) \<Rightarrow>
               (m, w2, [D1_first (table_check table), D1_all (sample_query table)])
           | (Inr sample, w2) \<Rightarrow>
               (case d1_all db (active_query table) w2 of
                  (Inl m, w3) \<Rightarrow>
                    (m, w3, [D1_first (table_check table), D1_all (sample_query table),
                             D1_all (active_query table)])
                | (Inr activeCheck, w3) \<Rightarrow>
                    (''No prefixes found in '' @ table @ '' with active = 1'', w3,
                     [D1_first (table_check table), D1_all (sample_query table),
                      D1_all (active_query table)]))))"

subsection \<open>Test doubles\<close>

text \<open>
  A scripted platform for concrete runs: the HTTP replies still to come, the active
  prefixes of the ASN table and what the table check finds. When the script is used up,
  \<^verbatim>\<open>fetch\<close> rejects.
\<close>

record sim =
  sim_replies :: "(string + response) list"
  sim_rows :: "string list"
  sim_table :: "(string \<times> string) list option"

definition sim_fetch :: "http_request \<Rightarrow> sim \<Rightarrow> (string + response) \<times> sim" where
  "sim_fetch req w =
     (case sim_replies w of
        [] \<Rightarrow> (Inl ''network error'', w)
      | r # rs \<Rightarrow> (r, w\<lparr>sim_replies := rs\<rparr>))"

definition sim_globals :: "(string \<times> js) list \<Rightarrow> sim globals" where
  "sim_globals bodies =
     \<lparr>global_fetch = sim_fetch,
      JSON_parse = map_of bodies,
      JSON_stringify = (\<lambda>json. ''{}''),
      Date_toISOString = (\<lambda>w. ''2025-05-23T00:00:00.000Z'')\<rparr>"

definition sim_d1 :: "sim d1" where
  "sim_d1 =
     \<lparr>d1_first = (\<lambda>st w. (Inr (sim_table w), w)),
      d1_all = (\<lambda>st w. (Inr \<lparr>all_results = Some (map (\<lambda>p. \<lparr>row_prefix = p\<rparr>) (sim_rows w)),
                              all_success = True, all_error = None\<rparr>, w)),
      d1_run = (\<lambda>st w. (Inr 0, w)),
      d1_batch = (\<lambda>sts w. (Inr (map (\<lambda>st. 1) sts), w))\<rparr>"

definition sim_env :: "sim env" where
  "sim_env =
     \<lparr>DB = Some sim_d1, ACCOUNT_ID = Some ''acct'', LIST_ID = Some ''list'',
      API_EMAIL = Some ''ops@example.com'', API_KEY = Some ''key''\<rparr>"



text \<open>
  A scripted scenario of two runs for one ASN with one active prefix: the remote list is
  empty at first, takes the append and the probe, and then holds the prefix.
\<close>

definition two_runs_globals :: "sim globals" where
  "two_runs_globals =
     sim_globals
       [(''empty'', JObj [(''success'', JBool True), (''result'', JObj [(''items'', JArr [])])]),
        (''ok'', JObj [(''success'', JBool True)]),
        (''one'', JObj [(''success'', JBool True),
                        (''result'', JObj [(''items'',
                           JArr [JObj [(''value'', JStr ''1.1.1.0/24'')]])])])]"

definition two_runs_start :: sim where
  "two_runs_start =
     \<lparr>sim_replies = [Inr \<lparr>res_status = 200, res_text = ''empty''\<rparr>,
                     Inr \<lparr>res_status = 200, res_text = ''ok''\<rparr>,
                     Inr \<lparr>res_status = 200, res_text = ''ok''\<rparr>,
                     Inr \<lparr>res_status = 200, res_text = ''one''\<rparr>],
      sim_rows = [''1.1.1.0/24''], sim_table = None\<rparr>"

definition two_runs_between :: sim where
  "two_runs_between =
     \<lparr>sim_replies = [Inr \<lparr>res_status = 200, res_text = ''one''\<rparr>],
      sim_rows = [''1.1.1.0/24''], sim_table = None\<rparr>"

definition first_run_trace :: "event list" where
  "first_run_trace =
     [D1_first (last_run_query ''AS1''),
      D1_all (desired_query ''AS1''),
      Fetch (get_request sim_env) (Inr \<lparr>res_status = 200, res_text = ''empty''\<rparr>),
      Fetch (patch_request sim_env (append_payload [JStr ''1.1.1.0/24'']))
        (Inr \<lparr>res_status = 200, res_text = ''ok''\<rparr>),
      Fetch (patch_request sim_env (append_payload [JStr ''1.1.1.0/24'']))
        (Inr \<lparr>res_status = 200, res_text = ''ok''\<rparr>),
      D1_run \<lparr>stmt_sql = ''DELETE FROM synced_prefixes WHERE asn = ?'', stmt_binds = [''AS1'']\<rparr>,
      D1_batch [\<lparr>stmt_sql =
                  ''INSERT OR IGNORE INTO synced_prefixes (asn, prefix) VALUES (?, ?)'',
                 stmt_binds = [''AS1'', ''1.1.1.0/24'']\<rparr>],
      D1_run \<lparr>stmt_sql = ''INSERT INTO sync_state (asn, last_run)'' @ [CHR 0x0A]
                  @ ''       VALUES (?, ?)'' @ [CHR 0x0A]
                  @ ''       ON CONFLICT(asn) DO UPDATE SET last_run = excluded.last_run'',
              stmt_binds = [''AS1'', ''2025-05-23T00:00:00.000Z'']\<rparr>]"





section \<open>Properties of the model\<close>

subsection \<open>The matcher decides the language\<close>

lemma nullable_lang: "nullable r \<longleftrightarrow> [] \<in> lang r"
  by (induction r) (auto simp: conc_def intro: star_empty)

lemma conc_cons:
  "c # w \<in> conc A B \<longleftrightarrow>
     (\<exists>u v. w = u @ v \<and> c # u \<in> A \<and> v \<in> B) \<or> ([] \<in> A \<and> c # w \<in> B)"
  unfolding conc_def by (auto simp: Cons_eq_append_conv) 

lemma star_cons_elim:
  "x \<in> star A \<Longrightarrow> x = c # w \<Longrightarrow> \<exists>u v. w = u @ v \<and> c # u \<in> A \<and> v \<in> star A"
proof (induction arbitrary: w rule: star.induct)
  case star_empty
  then show ?case by simp
next
  case (star_step u v)
  show ?case
  proof (cases u)
    case Nil
    with star_step show ?thesis by simp
  next
    case (Cons d u')
    with star_step.prems have "d = c" and "w = u' @ v" by simp_all
    with Cons star_step.hyps show ?thesis by blast
  qed
qed

lemma star_cons:
  "c # w \<in> star A \<longleftrightarrow> (\<exists>u v. w = u @ v \<and> c # u \<in> A \<and> v \<in> star A)"
proof
  assume "c # w \<in> star A"
  then show "\<exists>u v. w = u @ v \<and> c # u \<in> A \<and> v \<in> star A"
    by (rule star_cons_elim) simp
next
  assume "\<exists>u v. w = u @ v \<and> c # u \<in> A \<and> v \<in> star A"
  then obtain u v where "w = u @ v" "c # u \<in> A" "v \<in> star A" by blast
  then show "c # w \<in> star A"
    using star_step [of "c # u" A v] by simp
qed

lemma lang_deriv: "w \<in> lang (deriv c r) \<longleftrightarrow> c # w \<in> lang r"
proof (induction r arbitrary: w)
  case (Seq r s)
  then show ?case
    by (auto simp: conc_cons nullable_lang) (auto simp: conc_def)
next
  case (Star r)
  then show ?case
    by (auto simp: star_cons conc_def)
qed (auto simp: conc_def)

lemma regex_test_lang: "regex_test r s \<longleftrightarrow> s \<in> lang r"
  by (induction s arbitrary: r) (simp_all add: nullable_lang lang_deriv)

lemma mem_conc: "w \<in> conc A B \<longleftrightarrow> (\<exists>u v. w = u @ v \<and> u \<in> A \<and> v \<in> B)"
  by (auto simp: conc_def)

lemma mem_conc_class:
  "w \<in> conc {[c] | c. c \<in> S} B \<longleftrightarrow> (\<exists>c v. w = c # v \<and> c \<in> S \<and> v \<in> B)"
proof
  assume "w \<in> conc {[c] | c. c \<in> S} B"
  then show "\<exists>c v. w = c # v \<and> c \<in> S \<and> v \<in> B"
    by (auto simp: conc_def)
next
  assume "\<exists>c v. w = c # v \<and> c \<in> S \<and> v \<in> B"
  then obtain c v where "w = [c] @ v" "c \<in> S" "v \<in> B" by auto
  then show "w \<in> conc {[c] | c. c \<in> S} B"
    unfolding mem_conc by blast
qed

lemma mem_conc_lit: "w \<in> conc {[c]} B \<longleftrightarrow> (\<exists>v. w = c # v \<and> v \<in> B)"
  using mem_conc_class [of w "{c}" B] by simp

lemma lang_exactly_class:
  "lang (exactly n (Class cs)) = {w. length w = n \<and> set w \<subseteq> set cs}"
proof (induction n)
  case 0
  then show ?case by auto
next
  case (Suc n)
  show ?case
  proof (rule set_eqI)
    fix w
    show "w \<in> lang (exactly (Suc n) (Class cs)) \<longleftrightarrow>
          w \<in> {w. length w = Suc n \<and> set w \<subseteq> set cs}"
      using Suc by (cases w) (auto simp: mem_conc_class)
  qed
qed

lemma lang_at_most_class:
  "lang (at_most n (Class cs)) = {w. length w \<le> n \<and> set w \<subseteq> set cs}"
proof (induction n)
  case 0
  then show ?case by auto
next
  case (Suc n)
  show ?case
  proof (rule set_eqI)
    fix w
    show "w \<in> lang (at_most (Suc n) (Class cs)) \<longleftrightarrow>
          w \<in> {w. length w \<le> Suc n \<and> set w \<subseteq> set cs}"
      using Suc by (cases w) (auto simp: mem_conc_class)
  qed
qed

lemma lang_between_class:
  assumes "m \<le> n"
  shows "lang (between m n (Class cs)) =
         {w. m \<le> length w \<and> length w \<le> n \<and> set w \<subseteq> set cs}"
proof (rule set_eqI)
  fix w
  show "w \<in> lang (between m n (Class cs)) \<longleftrightarrow>
        w \<in> {w. m \<le> length w \<and> length w \<le> n \<and> set w \<subseteq> set cs}"
  proof
    assume "w \<in> lang (between m n (Class cs))"
    then obtain u v where "w = u @ v" "length u = m" "set u \<subseteq> set cs"
        "length v \<le> n - m" "set v \<subseteq> set cs"
      by (auto simp: between_def mem_conc lang_exactly_class lang_at_most_class)
    with assms show "w \<in> {w. m \<le> length w \<and> length w \<le> n \<and> set w \<subseteq> set cs}"
      by auto
  next
    assume w: "w \<in> {w. m \<le> length w \<and> length w \<le> n \<and> set w \<subseteq> set cs}"
    have "w = take m w @ drop m w" by simp
    moreover from w have "length (take m w) = m" "set (take m w) \<subseteq> set cs"
      by (auto dest: in_set_takeD)
    moreover from w have "length (drop m w) \<le> n - m" "set (drop m w) \<subseteq> set cs"
      by (auto dest: in_set_dropD)
    ultimately show "w \<in> lang (between m n (Class cs))"
      unfolding between_def lang.simps mem_conc lang_exactly_class lang_at_most_class
      by blast
  qed
qed

lemma star_class: "star {[c] | c. c \<in> set cs} = {w. set w \<subseteq> set cs}"
proof (rule set_eqI)
  fix w
  show "w \<in> star {[c] | c. c \<in> set cs} \<longleftrightarrow> w \<in> {w. set w \<subseteq> set cs}"
  proof
    assume "w \<in> star {[c] | c. c \<in> set cs}"
    then show "w \<in> {w. set w \<subseteq> set cs}"
      by (induction rule: star.induct) auto
  next
    assume "w \<in> {w. set w \<subseteq> set cs}"
    then have "set w \<subseteq> set cs" by simp
    then show "w \<in> star {[c] | c. c \<in> set cs}"
    proof (induction w)
      case Nil
      show ?case by (rule star_empty)
    next
      case (Cons a w)
      then have "[a] \<in> {[c] | c. c \<in> set cs}" and "w \<in> star {[c] | c. c \<in> set cs}"
        by auto
      then have "[a] @ w \<in> star {[c] | c. c \<in> set cs}" by (rule star_step)
      then show ?case by simp
    qed
  qed
qed

lemma lang_one_or_more_class:
  "lang (one_or_more (Class cs)) = {w. w \<noteq> [] \<and> set w \<subseteq> set cs}"
proof (rule set_eqI)
  fix w
  show "w \<in> lang (one_or_more (Class cs)) \<longleftrightarrow> w \<in> {w. w \<noteq> [] \<and> set w \<subseteq> set cs}"
    by (cases w) (auto simp: one_or_more_def mem_conc_class star_class)
qed

lemma lang_digits: "m \<le> n \<Longrightarrow> lang (between m n digit) = {w. digits_between m n w}"
  by (simp add: digit_def lang_between_class digits_between_def)

lemma concI: "u \<in> A \<Longrightarrow> v \<in> B \<Longrightarrow> u @ v \<in> conc A B"
  unfolding mem_conc by blast

lemma concE: "w \<in> conc A B \<Longrightarrow> (\<And>u v. w = u @ v \<Longrightarrow> u \<in> A \<Longrightarrow> v \<in> B \<Longrightarrow> R) \<Longrightarrow> R"
  unfolding mem_conc by blast

lemma octet_dotI:
  "digits_between 1 3 a \<Longrightarrow> a @ ''.'' \<in> lang (Seq (between 1 3 digit) (Lit CHR ''.''))"
  unfolding lang.simps(5) by (rule concI) (simp_all add: lang_digits)

lemma octet_dotE:
  assumes "x \<in> lang (Seq (between 1 3 digit) (Lit CHR ''.''))"
  obtains a where "x = a @ ''.''" and "digits_between 1 3 a"
proof -
  from assms have "x \<in> conc (lang (between 1 3 digit)) {''.''}" by simp
  then obtain a where "x = a @ ''.''" "a \<in> lang (between 1 3 digit)"
    by (auto elim!: concE)
  then show thesis using that by (simp add: lang_digits)
qed

lemma cidr_tailI:
  "digits_between m n p \<Longrightarrow> m \<le> n \<Longrightarrow> ''/'' @ p \<in> lang (Seq (Lit CHR ''/'') (between m n digit))"
  unfolding lang.simps(5) by (rule concI) (simp_all add: lang_digits)

lemma cidr_tailE:
  assumes "t \<in> lang (Seq (Lit CHR ''/'') (between m n digit))" and "m \<le> n"
  obtains p where "t = ''/'' @ p" and "digits_between m n p"
proof -
  from assms(1) have "t \<in> conc {''/''} (lang (between m n digit))" by simp
  then obtain p where "t = ''/'' @ p" "p \<in> lang (between m n digit)"
    by (auto elim!: concE)
  then show thesis using that assms(2) by (simp add: lang_digits)
qed

lemma lang_ipv4_part:
  "lang (Seq (exactly 3 (Seq (between 1 3 digit) (Lit CHR ''.'')))
            (Seq (between 1 3 digit) (Seq (Lit CHR ''/'') (between 1 2 digit))))
   = {s. ipv4_cidr_form s}"
proof (rule set_eqI)
  fix s
  let ?dot = "Seq (between 1 3 digit) (Lit CHR ''.'')"
  let ?tail = "Seq (Lit CHR ''/'') (between 1 2 digit)"
  let ?L = "conc (conc (lang ?dot) (conc (lang ?dot) (conc (lang ?dot) {[]})))
              (conc (lang (between 1 3 digit)) (lang ?tail))"
  have unfold: "lang (Seq (exactly 3 ?dot) (Seq (between 1 3 digit) ?tail)) = ?L"
    unfolding numeral_3_eq_3 exactly.simps lang.simps(5) lang.simps(2) ..
  show "s \<in> lang (Seq (exactly 3 ?dot) (Seq (between 1 3 digit) ?tail))
        \<longleftrightarrow> s \<in> {s. ipv4_cidr_form s}"
  proof
    assume "s \<in> lang (Seq (exactly 3 ?dot) (Seq (between 1 3 digit) ?tail))"
    then have "s \<in> ?L" by (simp only: unfold)
    then obtain x y z d t where s: "s = (x @ y @ z @ []) @ d @ t"
      and x: "x \<in> lang ?dot" and y: "y \<in> lang ?dot" and z: "z \<in> lang ?dot"
      and d: "d \<in> lang (between 1 3 digit)" and t: "t \<in> lang ?tail"
      by (elim concE) (simp only: singleton_iff)
    from x obtain a where a: "x = a @ ''.''" "digits_between 1 3 a" by (rule octet_dotE)
    from y obtain b where b: "y = b @ ''.''" "digits_between 1 3 b" by (rule octet_dotE)
    from z obtain c where c: "z = c @ ''.''" "digits_between 1 3 c" by (rule octet_dotE)
    from t obtain p where p: "t = ''/'' @ p" "digits_between 1 2 p"
      by (rule cidr_tailE) simp_all
    from d have d': "digits_between 1 3 d" by (simp add: lang_digits)
    from s a b c p have "s = a @ ''.'' @ b @ ''.'' @ c @ ''.'' @ d @ ''/'' @ p" by simp
    with a b c d' p have "ipv4_cidr_form s"
      unfolding ipv4_cidr_form_def by blast
    then show "s \<in> {s. ipv4_cidr_form s}" by simp
  next
    assume "s \<in> {s. ipv4_cidr_form s}"
    then obtain a b c d p where s: "s = a @ ''.'' @ b @ ''.'' @ c @ ''.'' @ d @ ''/'' @ p"
      and ds: "digits_between 1 3 a" "digits_between 1 3 b" "digits_between 1 3 c"
        "digits_between 1 3 d" "digits_between 1 2 p"
      unfolding ipv4_cidr_form_def by blast
    have "((a @ ''.'') @ (b @ ''.'') @ (c @ ''.'') @ []) @ d @ ''/'' @ p \<in> ?L"
      using ds by (intro concI octet_dotI cidr_tailI) (simp_all add: lang_digits)
    with s show "s \<in> lang (Seq (exactly 3 ?dot) (Seq (between 1 3 digit) ?tail))"
      by (simp only: unfold) simp
  qed
qed

lemma lang_hex_part:
  "lang (Seq (one_or_more hex_or_colon) (Seq (Lit CHR ''/'') (between 1 3 digit)))
   = {s. hex_colon_cidr_form s}"
proof (rule set_eqI)
  fix s
  let ?tail = "Seq (Lit CHR ''/'') (between 1 3 digit)"
  let ?G = "{w. w \<noteq> [] \<and> set w \<subseteq> set ''0123456789abcdefABCDEF:''}"
  have unfold: "lang (Seq (one_or_more hex_or_colon) ?tail) = conc ?G (lang ?tail)"
    by (simp only: hex_or_colon_def lang.simps(5) lang_one_or_more_class)
  show "s \<in> lang (Seq (one_or_more hex_or_colon) ?tail) \<longleftrightarrow> s \<in> {s. hex_colon_cidr_form s}"
  proof
    assume "s \<in> lang (Seq (one_or_more hex_or_colon) ?tail)"
    then have "s \<in> conc ?G (lang ?tail)" by (simp only: unfold)
    then obtain g t where s: "s = g @ t" and g: "g \<in> ?G" and t: "t \<in> lang ?tail"
      by (rule concE)
    from t obtain p where p: "t = ''/'' @ p" "digits_between 1 3 p"
      by (rule cidr_tailE) simp_all
    from s g p have "hex_colon_cidr_form s"
      unfolding hex_colon_cidr_form_def by blast
    then show "s \<in> {s. hex_colon_cidr_form s}" by simp
  next
    assume "s \<in> {s. hex_colon_cidr_form s}"
    then obtain g p where s: "s = g @ ''/'' @ p" and g: "g \<in> ?G" and p: "digits_between 1 3 p"
      unfolding hex_colon_cidr_form_def by blast
    from g p have "g @ ''/'' @ p \<in> conc ?G (lang ?tail)"
      by (intro concI cidr_tailI) simp_all
    with s show "s \<in> lang (Seq (one_or_more hex_or_colon) ?tail)"
      by (simp only: unfold)
  qed
qed

subsection \<open>Laws of the asynchronous combinators\<close>

lemma resolve_apply [simp]: "resolve x s = Some (Inr x, s)"
  by (simp add: resolve_def)

lemma reject_apply [simp]: "reject e s = Some (Inl e, s)"
  by (simp add: reject_def)

lemma emit_apply [simp]: "emit ev s = Some (Inr (), (fst s, snd s @ [ev]))"
  by (simp add: emit_def)

lemma await_Inr: "m s = Some (Inr x, s1) \<Longrightarrow> await m f s = f x s1"
  by (simp add: await_def)

lemma await_Inl: "m s = Some (Inl e, s1) \<Longrightarrow> await m f s = Some (Inl e, s1)"
  by (simp add: await_def)

lemma await_None: "m s = None \<Longrightarrow> await m f s = None"
  by (simp add: await_def)

lemma try_catch_Inr: "m s = Some (Inr x, s1) \<Longrightarrow> try_catch m h s = Some (Inr x, s1)"
  by (simp add: try_catch_def)

lemma try_catch_Inl: "m s = Some (Inl e, s1) \<Longrightarrow> try_catch m h s = h e s1"
  by (simp add: try_catch_def)

lemma try_catch_None: "m s = None \<Longrightarrow> try_catch m h s = None"
  by (simp add: try_catch_def)

lemma await_SomeE:
  assumes "await m f s = Some (r, s')"
  obtains (rejected) e where "m s = Some (Inl e, s')" and "r = Inl e"
        | (resolved) x s1 where "m s = Some (Inr x, s1)" and "f x s1 = Some (r, s')"
  using assms by (auto simp: await_def split: option.splits sum.splits)

lemma try_catch_SomeE:
  assumes "try_catch m h s = Some (r, s')"
  obtains (caught) e s1 where "m s = Some (Inl e, s1)" and "h e s1 = Some (r, s')"
        | (passed) x where "m s = Some (Inr x, s')" and "r = Inr x"
  using assms by (auto simp: try_catch_def split: option.splits sum.splits)

lemma await_resolve_left [simp]: "await (resolve x) f = f x"
  by (rule ext) (simp add: await_def)

lemma await_reject_left [simp]: "await (reject e) f = reject e"
  by (rule ext) (simp add: await_def)

lemma await_emit: "await (emit ev) f s = f () (fst s, snd s @ [ev])"
  by (simp add: await_def)

lemma do_fetch_apply:
  "do_fetch g req s =
     Some (settle (fst (global_fetch g req (fst s))),
           (snd (global_fetch g req (fst s)),
            snd s @ [Fetch req (fst (global_fetch g req (fst s)))]))"
  by (simp add: do_fetch_def split: prod.splits)

lemma stmt_first_apply:
  "stmt_first db st s =
     Some (settle (fst (d1_first db st (fst s))),
           (snd (d1_first db st (fst s)), snd s @ [D1_first st]))"
  by (simp add: stmt_first_def split: prod.splits)

lemma stmt_all_apply:
  "stmt_all db st s =
     Some (settle (fst (d1_all db st (fst s))),
           (snd (d1_all db st (fst s)), snd s @ [D1_all st]))"
  by (simp add: stmt_all_def split: prod.splits)

lemma stmt_run_apply:
  "stmt_run db st s =
     Some (settle (fst (d1_run db st (fst s))),
           (snd (d1_run db st (fst s)), snd s @ [D1_run st]))"
  by (simp add: stmt_run_def split: prod.splits)

lemma DB_batch_apply:
  "DB_batch db sts s =
     Some (settle (fst (d1_batch db sts (fst s))),
           (snd (d1_batch db sts (fst s)), snd s @ [D1_batch sts]))"
  by (simp add: DB_batch_def split: prod.splits)

lemma settle_simps [simp]: "settle (Inl m) = Inl (Error m)" "settle (Inr x) = Inr x"
  by (simp_all add: settle_def)

subsection \<open>What a computation adds to the trace\<close>

lemma emitsI:
  "(\<And>s r s'. m s = Some (r, s') \<Longrightarrow> \<exists>evs. snd s' = snd s @ evs \<and> list_all P evs)
   \<Longrightarrow> emits P m"
  unfolding emits_def by blast

lemma emitsD:
  "emits P m \<Longrightarrow> m s = Some (r, s') \<Longrightarrow> \<exists>evs. snd s' = snd s @ evs \<and> list_all P evs"
  unfolding emits_def by blast

lemma emits_mono: "emits P m \<Longrightarrow> (\<And>ev. P ev \<Longrightarrow> Q ev) \<Longrightarrow> emits Q m"
  unfolding emits_def list_all_iff by blast

lemma emits_resolve [intro!, simp]: "emits P (resolve x)"
  by (rule emitsI) auto

lemma emits_reject [intro!, simp]: "emits P (reject e)"
  by (rule emitsI) auto

lemma emits_emit: "P ev \<Longrightarrow> emits P (emit ev)"
  by (rule emitsI) auto

lemma emits_await:
  assumes "emits P m" and "\<And>x. emits P (f x)"
  shows "emits P (await m f)"
proof (rule emitsI)
  fix s r s'
  assume "await m f s = Some (r, s')"
  then show "\<exists>evs. snd s' = snd s @ evs \<and> list_all P evs"
  proof (cases rule: await_SomeE)
    case (rejected e)
    with assms(1) show ?thesis by (auto dest: emitsD)
  next
    case (resolved x s1)
    from emitsD [OF assms(1) resolved(1)] obtain evs1
      where e1: "snd s1 = snd s @ evs1" "list_all P evs1" by blast
    from emitsD [OF assms(2) resolved(2)] obtain evs2
      where e2: "snd s' = snd s1 @ evs2" "list_all P evs2" by blast
    from e1 e2 have "snd s' = snd s @ (evs1 @ evs2)" "list_all P (evs1 @ evs2)" by simp_all
    then show ?thesis by blast
  qed
qed

lemma emits_try_catch:
  assumes "emits P m" and "\<And>e. emits P (h e)"
  shows "emits P (try_catch m h)"
proof (rule emitsI)
  fix s r s'
  assume "try_catch m h s = Some (r, s')"
  then show "\<exists>evs. snd s' = snd s @ evs \<and> list_all P evs"
  proof (cases rule: try_catch_SomeE)
    case (caught e s1)
    from emitsD [OF assms(1) caught(1)] obtain evs1
      where e1: "snd s1 = snd s @ evs1" "list_all P evs1" by blast
    from emitsD [OF assms(2) caught(2)] obtain evs2
      where e2: "snd s' = snd s1 @ evs2" "list_all P evs2" by blast
    from e1 e2 have "snd s' = snd s @ (evs1 @ evs2)" "list_all P (evs1 @ evs2)" by simp_all
    then show ?thesis by blast
  next
    case (passed x)
    with assms(1) show ?thesis by (auto dest: emitsD)
  qed
qed

lemma emits_if: "emits P m \<Longrightarrow> emits P n \<Longrightarrow> emits P (if b then m else n)"
  by simp

lemma emits_do_fetch: "(\<And>r. P (Fetch req r)) \<Longrightarrow> emits P (do_fetch g req)"
  by (rule emitsI) (auto simp: do_fetch_apply)

lemma emits_stmt_first: "P (D1_first st) \<Longrightarrow> emits P (stmt_first db st)"
  by (rule emitsI) (auto simp: stmt_first_apply)

lemma emits_stmt_all: "P (D1_all st) \<Longrightarrow> emits P (stmt_all db st)"
  by (rule emitsI) (auto simp: stmt_all_apply)

lemma emits_stmt_run: "P (D1_run st) \<Longrightarrow> emits P (stmt_run db st)"
  by (rule emitsI) (auto simp: stmt_run_apply)

lemma emits_DB_batch: "P (D1_batch sts) \<Longrightarrow> emits P (DB_batch db sts)"
  by (rule emitsI) (auto simp: DB_batch_apply)

subsection \<open>Sets and the diff\<close>

lemma set_foldl_Set_add: "set (foldl Set_add acc xs) = set acc \<union> set xs"
  by (induction xs arbitrary: acc) (auto simp: Set_add_def)

lemma distinct_foldl_Set_add: "distinct acc \<Longrightarrow> distinct (foldl Set_add acc xs)"
  by (induction xs arbitrary: acc) (auto simp: Set_add_def)

lemma foldl_Set_add_distinct: "distinct (acc @ xs) \<Longrightarrow> foldl Set_add acc xs = acc @ xs"
  by (induction xs arbitrary: acc) (auto simp: Set_add_def)

lemma set_new_Set [simp]: "set (new_Set xs) = set xs"
  by (simp add: new_Set_def set_foldl_Set_add)

lemma distinct_new_Set [simp]: "distinct (new_Set xs)"
  by (simp add: new_Set_def distinct_foldl_Set_add)

lemma new_Set_distinct: "distinct xs \<Longrightarrow> new_Set xs = xs"
  using foldl_Set_add_distinct [of "[]" xs] by (simp add: new_Set_def)

lemma diff_stage_eq:
  "diff_stage validDesired existing =
     (filter (\<lambda>p. p \<notin> set existing) validDesired, filter (\<lambda>p. p \<notin> set validDesired) existing)"
  by (simp add: diff_stage_def Set_has_def)


lemma count_list_concat: "count_list (concat xss) v = sum_list (map (\<lambda>xs. count_list xs v) xss)"
  by (induction xss) auto

subsection \<open>The splitting loop computes the consecutive chunks\<close>

lemma chunks_Nil [simp]: "chunks n [] = []"
  by (simp add: chunks.simps)

lemma chunks_step: "0 < n \<Longrightarrow> xs \<noteq> [] \<Longrightarrow> chunks n xs = take n xs # chunks n (drop n xs)"
  by (subst chunks.simps) simp



lemma chunks_full_but_last:
  "0 < n \<Longrightarrow> chunks n xs = cs @ [c] \<Longrightarrow> d \<in> set cs \<Longrightarrow> length d = n"
proof (induction n xs arbitrary: cs rule: chunks.induct)
  case (1 n xs)
  show ?case
  proof (cases "xs = []")
    case True
    with 1 show ?thesis by simp
  next
    case False
    with 1(2,3) have eq: "take n xs # chunks n (drop n xs) = cs @ [c]"
      by (simp add: chunks_step)
    show ?thesis
    proof (cases cs)
      case Nil
      with 1(4) show ?thesis by simp
    next
      case (Cons e es)
      with eq have e: "e = take n xs" and rest: "chunks n (drop n xs) = es @ [c]" by simp_all
      from rest have "drop n xs \<noteq> []" by auto
      then have "n < length xs" by simp
      with e have "length e = n" by simp
      moreover have "d \<in> set es \<Longrightarrow> length d = n"
        using 1(1) [OF _ 1(2) rest] False 1(2) by simp
      ultimately show ?thesis using 1(4) Cons by auto
    qed
  qed
qed

lemma split_loop_chunks:
  "0 < batchSize \<Longrightarrow>
   split_loop xs batchSize i batches = Some (batches @ chunks batchSize (drop i xs))"
proof (induction "length xs - i" arbitrary: i batches rule: less_induct)
  case less
  show ?case
  proof (cases "i < length xs")
    case False
    then show ?thesis by (subst split_loop.simps) simp
  next
    case True
    then have "length xs - (i + batchSize) < length xs - i"
      using less.prems by simp
    from less.hyps [OF this less.prems]
    have "split_loop xs batchSize (i + batchSize) (batches @ [slice xs i (i + batchSize)])
          = Some ((batches @ [slice xs i (i + batchSize)])
                    @ chunks batchSize (drop (i + batchSize) xs))" .
    moreover from True have "drop i xs \<noteq> []" by simp
    then have "chunks batchSize (drop i xs)
               = take batchSize (drop i xs) # chunks batchSize (drop (i + batchSize) xs)"
      using less.prems by (simp add: chunks_step add.commute)
    ultimately show ?thesis
      using True by (subst split_loop.simps) (simp add: slice_def)
  qed
qed

lemma split_loop_from_zero:
  "0 < batchSize \<Longrightarrow> split_loop xs batchSize 0 [] = Some (chunks batchSize xs)"
  by (simp add: split_loop_chunks)



subsection \<open>One PATCH request\<close>

lemma single_catch_apply:
  "single_catch batchLabel err s =
     Some (Inl err, (fst s, snd s @ [ConsoleError (''[ERROR] Failed to update Gateway list (''
        @ batchLabel @ ''): '' @ message err)]))"
  by (simp add: single_catch_def await_emit)


lemma single_skip:
  "payload_append pl = None \<Longrightarrow> payload_remove pl = None \<Longrightarrow>
   updateGatewayListSingle g url headers pl batchLabel s = Some (Inr JUndefined, s)"
  by (subst updateGatewayListSingle.simps) simp

lemma single_retry:
  assumes "payload_append pl \<noteq> None \<or> payload_remove pl \<noteq> None"
    and "req = \<lparr>req_method = ''PATCH'', req_url = url, req_headers = headers,
                 req_body = Some pl\<rparr>"
    and "rate_limited (fst (global_fetch g req (fst s)))"
  shows "updateGatewayListSingle g url headers pl batchLabel s =
         updateGatewayListSingle g url headers pl batchLabel
           (snd (global_fetch g req (fst s)),
            snd s @ retry_events batchLabel req (fst (global_fetch g req (fst s))))"
  using assms
  by (subst updateGatewayListSingle.simps)
     (auto simp: do_fetch_apply rate_limited_def retry_events_def ok_def split: sum.splits)

lemma parsed_outcome:
  "(case js_get json ''success'' of
      Inl err \<Rightarrow> single_catch batchLabel err s1
    | Inr success \<Rightarrow>
        if \<not> truthy success then
          (case js_get json ''errors'' of
            Inl err \<Rightarrow> single_catch batchLabel err s1
          | Inr errors \<Rightarrow>
              single_catch batchLabel
                (Error (''Update failed: ''
                   @ JSON_stringify g (if truthy errors then errors else json))) s1)
        else
          (case js_get json ''result'' of
            Inl err \<Rightarrow> single_catch batchLabel err s1
          | Inr result \<Rightarrow> Some (Inr result, s1)))
   = (case (case js_get json ''success'' of
              Inl err \<Rightarrow> Inl err
            | Inr success \<Rightarrow>
                if \<not> truthy success
                then Inl (Error (''Update failed: '' @ JSON_stringify g (errors_or_body json)))
                else Inr (body_result json)) of
        Inl err \<Rightarrow> single_catch batchLabel err s1
      | Inr v \<Rightarrow> Some (Inr v, s1))"
  by (cases json) (simp_all add: errors_or_body_def body_result_def)

lemma single_final:
  assumes "payload_append pl \<noteq> None \<or> payload_remove pl \<noteq> None"
    and "req = \<lparr>req_method = ''PATCH'', req_url = url, req_headers = headers,
                 req_body = Some pl\<rparr>"
    and "\<not> rate_limited (fst (global_fetch g req (fst s)))"
  shows "updateGatewayListSingle g url headers pl batchLabel s =
           Some (attempt_result g (fst (global_fetch g req (fst s))),
                 (snd (global_fetch g req (fst s)),
                  snd s @ attempt_events g batchLabel req (fst (global_fetch g req (fst s)))))"
  using assms
  by (subst updateGatewayListSingle.simps)
     (auto simp: do_fetch_apply rate_limited_def attempt_result_def attempt_events_def
        single_catch_apply parsed_outcome split: sum.splits option.splits)

lemma accepted_iff: "accepted g r \<longleftrightarrow> (\<exists>x. attempt_result g r = Inr x)"
  by (auto simp: accepted_def attempt_result_def success_flag_def
        split: sum.splits option.splits)

lemma single_retries:
  assumes "payload_append pl \<noteq> None \<or> payload_remove pl \<noteq> None"
    and "req = \<lparr>req_method = ''PATCH'', req_url = url, req_headers = headers,
                 req_body = Some pl\<rparr>"
  shows "(\<And>k. k < n \<Longrightarrow> rate_limited (reply_after g req k w)) \<Longrightarrow>
         updateGatewayListSingle g url headers pl batchLabel (w, tr) =
         updateGatewayListSingle g url headers pl batchLabel
           (world_after g req n w, tr @ retries g batchLabel req n w)"
proof (induction n arbitrary: w tr)
  case 0
  show ?case by simp
next
  case (Suc n)
  from Suc.prems [of 0] have first: "rate_limited (fst (global_fetch g req (fst (w, tr))))"
    by (simp add: reply_after_def)
  have later: "\<And>k. k < n \<Longrightarrow> rate_limited (reply_after g req k (snd (global_fetch g req w)))"
    using Suc.prems [of "Suc k" for k] by (simp add: reply_after_def)
  have "updateGatewayListSingle g url headers pl batchLabel (w, tr) =
        updateGatewayListSingle g url headers pl batchLabel
          (snd (global_fetch g req w),
           tr @ retry_events batchLabel req (fst (global_fetch g req w)))"
    using single_retry [OF assms first] by simp
  also have "\<dots> = updateGatewayListSingle g url headers pl batchLabel
          (world_after g req n (snd (global_fetch g req w)),
           (tr @ retry_events batchLabel req (fst (global_fetch g req w)))
             @ retries g batchLabel req n (snd (global_fetch g req w)))"
    by (rule Suc.IH [OF later])
  finally show ?case by simp
qed

lemma single_settles:
  assumes "payload_append pl \<noteq> None \<or> payload_remove pl \<noteq> None"
    and "req = \<lparr>req_method = ''PATCH'', req_url = url, req_headers = headers,
                 req_body = Some pl\<rparr>"
    and "\<And>k. k < n \<Longrightarrow> rate_limited (reply_after g req k w)"
    and "\<not> rate_limited (reply_after g req n w)"
  shows "updateGatewayListSingle g url headers pl batchLabel (w, tr) =
           Some (attempt_result g (reply_after g req n w),
                 (world_after g req (Suc n) w,
                  tr @ retries g batchLabel req n w
                     @ attempt_events g batchLabel req (reply_after g req n w)))"
proof -
  have shift: "world_after g req (Suc n) w = snd (global_fetch g req (world_after g req n w))"
    for n
    by (induction n arbitrary: w) simp_all
  have "updateGatewayListSingle g url headers pl batchLabel (w, tr) =
        updateGatewayListSingle g url headers pl batchLabel
          (world_after g req n w, tr @ retries g batchLabel req n w)"
    by (rule single_retries [OF assms(1,2,3)])
  also have "\<dots> = Some (attempt_result g (reply_after g req n w),
                 (world_after g req (Suc n) w,
                  (tr @ retries g batchLabel req n w)
                     @ attempt_events g batchLabel req (reply_after g req n w)))"
    using single_final [OF assms(1,2), of g "(world_after g req n w, tr @ retries g batchLabel req n w)"]
      assms(4)
    by (simp add: reply_after_def shift del: world_after.simps)
  finally show ?thesis by simp
qed

lemma single_diverges_aux:
  assumes "updateGatewayListSingle g0 url0 headers0 pl0 batchLabel0 s0 = Some y0"
  shows "\<not> ((payload_append pl0 \<noteq> None \<or> payload_remove pl0 \<noteq> None)
      \<and> (\<forall>k. rate_limited (reply_after g0
                \<lparr>req_method = ''PATCH'', req_url = url0, req_headers = headers0,
                  req_body = Some pl0\<rparr> k (fst s0))))"
proof (rule updateGatewayListSingle.raw_induct
    [where P = "\<lambda>g url headers pl batchLabel s y.
       \<not> ((payload_append pl \<noteq> None \<or> payload_remove pl \<noteq> None)
      \<and> (\<forall>k. rate_limited (reply_after g
                \<lparr>req_method = ''PATCH'', req_url = url, req_headers = headers,
                  req_body = Some pl\<rparr> k (fst s))))", OF _ assms])
  fix self :: "'a globals \<Rightarrow> string \<Rightarrow> (string \<times> string) list \<Rightarrow> payload \<Rightarrow> string \<Rightarrow> 'a state
     \<Rightarrow> ((error + js) \<times> 'a state) option"
  fix g url headers pl batchLabel s y
  let ?req = "\<lparr>req_method = ''PATCH'', req_url = url, req_headers = headers,
                req_body = Some pl\<rparr>"
  assume IH: "\<And>g url headers pl batchLabel s y.
        self g url headers pl batchLabel s = Some y \<Longrightarrow>
        \<not> ((payload_append pl \<noteq> None \<or> payload_remove pl \<noteq> None)
      \<and> (\<forall>k. rate_limited (reply_after g
                \<lparr>req_method = ''PATCH'', req_url = url, req_headers = headers,
                  req_body = Some pl\<rparr> k (fst s))))"
  assume step: "(if payload_append pl = None \<and> payload_remove pl = None then Some (Inr JUndefined, s)
      else
        (case do_fetch g ?req s of
          None \<Rightarrow> None
        | Some (Inl err, s1) \<Rightarrow> single_catch batchLabel err s1
        | Some (Inr res, s1) \<Rightarrow>
            if \<not> ok res then
              if res_status res = 429 then
                self g url headers pl batchLabel
                  (fst s1, snd s1 @ [ConsoleWarn (''[RETRY] '' @ batchLabel
                      @ '': Rate limit hit, retrying after delay''), SetTimeout 1000])
              else
                single_catch batchLabel
                  (Error (''API request failed with status '' @ show_nat (res_status res)
                     @ '': '' @ res_text res)) s1
            else
              (case JSON_parse g (res_text res) of
                None \<Rightarrow>
                  single_catch batchLabel
                    (Error (''Failed to parse API response: '' @ res_text res)) s1
              | Some json \<Rightarrow>
                  (case js_get json ''success'' of
                    Inl err \<Rightarrow> single_catch batchLabel err s1
                  | Inr success \<Rightarrow>
                      if \<not> truthy success then
                        (case js_get json ''errors'' of
                          Inl err \<Rightarrow> single_catch batchLabel err s1
                        | Inr errors \<Rightarrow>
                            single_catch batchLabel
                              (Error (''Update failed: ''
                                 @ JSON_stringify g (if truthy errors then errors else json))) s1)
                      else
                        (case js_get json ''result'' of
                          Inl err \<Rightarrow> single_catch batchLabel err s1
                        | Inr result \<Rightarrow> Some (Inr result, s1)))))) = Some y"
  show "\<not> ((payload_append pl \<noteq> None \<or> payload_remove pl \<noteq> None)
      \<and> (\<forall>k. rate_limited (reply_after g ?req k (fst s))))"
  proof
    assume q: "(payload_append pl \<noteq> None \<or> payload_remove pl \<noteq> None)
               \<and> (\<forall>k. rate_limited (reply_after g ?req k (fst s)))"
    then have "rate_limited (reply_after g ?req 0 (fst s))" by blast
    then have r0: "rate_limited (fst (global_fetch g ?req (fst s)))"
      by (simp add: reply_after_def)
    have later: "\<forall>k. rate_limited (reply_after g ?req k (snd (global_fetch g ?req (fst s))))"
    proof (intro allI)
      fix k
      from q have "rate_limited (reply_after g ?req (Suc k) (fst s))" by blast
      then show "rate_limited (reply_after g ?req k (snd (global_fetch g ?req (fst s))))"
        by (simp add: reply_after_def)
    qed
    from step q r0
    have "self g url headers pl batchLabel
            (snd (global_fetch g ?req (fst s)),
             snd s @ retry_events batchLabel ?req (fst (global_fetch g ?req (fst s)))) = Some y"
      by (auto simp: do_fetch_apply rate_limited_def retry_events_def ok_def
            split: sum.splits if_splits)
    from IH [OF this] q later show False by simp
  qed
qed

lemma single_diverges:
  assumes "payload_append pl \<noteq> None \<or> payload_remove pl \<noteq> None"
    and "req = \<lparr>req_method = ''PATCH'', req_url = url, req_headers = headers,
                 req_body = Some pl\<rparr>"
    and "\<And>k. rate_limited (reply_after g req k (fst s))"
  shows "updateGatewayListSingle g url headers pl batchLabel s = None"
proof (cases "updateGatewayListSingle g url headers pl batchLabel s")
  case None
  then show ?thesis .
next
  case (Some y)
  from single_diverges_aux [OF Some] assms show ?thesis by blast
qed

text \<open>Every call that settles saw some number of 429 replies and then one other reply.\<close>

lemma single_settled:
  assumes ne: "payload_append pl \<noteq> None \<or> payload_remove pl \<noteq> None"
    and req: "req = \<lparr>req_method = ''PATCH'', req_url = url, req_headers = headers,
                 req_body = Some pl\<rparr>"
    and run: "updateGatewayListSingle g url headers pl batchLabel (w, tr) = Some y"
  obtains n where "\<And>k. k < n \<Longrightarrow> rate_limited (reply_after g req k w)"
    and "\<not> rate_limited (reply_after g req n w)"
    and "y = (attempt_result g (reply_after g req n w),
              (world_after g req (Suc n) w,
               tr @ retries g batchLabel req n w
                  @ attempt_events g batchLabel req (reply_after g req n w)))"
proof -
  have "\<exists>k. \<not> rate_limited (reply_after g req k w)"
  proof (rule ccontr)
    assume "\<not> (\<exists>k. \<not> rate_limited (reply_after g req k w))"
    then have "\<And>k. rate_limited (reply_after g req k (fst (w, tr)))" by simp
    from single_diverges [OF ne req this] run show False by simp
  qed
  then obtain n where n: "\<not> rate_limited (reply_after g req n w)"
    and least: "\<And>k. k < n \<Longrightarrow> rate_limited (reply_after g req k w)"
    using exists_least_iff [of "\<lambda>k. \<not> rate_limited (reply_after g req k w)"] by blast
  from single_settles [OF ne req least n, of batchLabel tr] run
  have "y = (attempt_result g (reply_after g req n w),
              (world_after g req (Suc n) w,
               tr @ retries g batchLabel req n w
                  @ attempt_events g batchLabel req (reply_after g req n w)))"
    by simp
  with least n show thesis by (rule that)
qed

subsection \<open>The batched updater\<close>

lemma patch_payloads_append [simp]:
  "patch_payloads (xs @ ys) = patch_payloads xs @ patch_payloads ys"
  by (induction xs rule: patch_payloads.induct) (simp_all split: option.splits)

lemma patch_payloads_retries:
  "req_method req = ''PATCH'' \<Longrightarrow> req_body req = Some pl \<Longrightarrow>
   patch_payloads (retries g batchLabel req n w) = replicate n pl"
  by (induction n arbitrary: w) (simp_all add: retry_events_def)

lemma patch_payloads_attempt:
  "req_method req = ''PATCH'' \<Longrightarrow> req_body req = Some pl \<Longrightarrow>
   patch_payloads (attempt_events g batchLabel req r) = [pl]"
  by (simp add: attempt_events_def split: sum.splits)

lemma no_write_retries: "list_all (\<lambda>ev. is_patch ev \<or> is_console_or_timer ev)
    (retries g batchLabel \<lparr>req_method = ''PATCH'', req_url = url, req_headers = headers,
                 req_body = Some pl\<rparr> n w)"
  by (induction n arbitrary: w) (simp_all add: retry_events_def)

lemma no_write_attempt: "list_all (\<lambda>ev. is_patch ev \<or> is_console_or_timer ev)
    (attempt_events g batchLabel \<lparr>req_method = ''PATCH'', req_url = url, req_headers = headers,
                 req_body = Some pl\<rparr> r)"
  by (simp add: attempt_events_def split: sum.splits)

lemma no_failed_patch_append [simp]:
  "no_failed_patch g (xs @ ys) \<longleftrightarrow> no_failed_patch g xs \<and> no_failed_patch g ys"
  unfolding no_failed_patch_def by auto

lemma no_failed_patch_Nil [simp]: "no_failed_patch g []"
  by (simp add: no_failed_patch_def)

lemma no_failed_patch_other:
  "list_all (\<lambda>ev. \<not> is_patch ev) evs \<Longrightarrow> no_failed_patch g evs"
  unfolding no_failed_patch_def list_all_iff by force

lemma retries_rate_limited:
  "(\<And>k. k < n \<Longrightarrow> rate_limited (reply_after g req k w)) \<Longrightarrow>
   Fetch rq rep \<in> set (retries g batchLabel req n w) \<Longrightarrow> rate_limited rep"
proof (induction n arbitrary: w)
  case 0
  then show ?case by simp
next
  case (Suc n)
  from Suc.prems(1) [of 0] have first: "rate_limited (fst (global_fetch g req w))"
    by (simp add: reply_after_def)
  have later: "\<And>k. k < n \<Longrightarrow> rate_limited (reply_after g req k (snd (global_fetch g req w)))"
    using Suc.prems(1) [of "Suc k" for k] by (simp add: reply_after_def)
  from Suc.prems(2) have "rep = fst (global_fetch g req w)
      \<or> Fetch rq rep \<in> set (retries g batchLabel req n (snd (global_fetch g req w)))"
    by (auto simp: retry_events_def)
  with first Suc.IH [OF later] show ?case by blast
qed

text \<open>What any settled call for one chunk has added to the trace.\<close>

lemma single_trace:
  assumes ne: "payload_append pl \<noteq> None \<or> payload_remove pl \<noteq> None"
    and req: "req = \<lparr>req_method = ''PATCH'', req_url = url, req_headers = headers,
                 req_body = Some pl\<rparr>"
    and run: "updateGatewayListSingle g url headers pl batchLabel s = Some (r, s')"
  shows "\<exists>evs n. snd s' = snd s @ evs \<and> patch_payloads evs = replicate (Suc n) pl
           \<and> list_all (\<lambda>ev. is_patch ev \<or> is_console_or_timer ev) evs
           \<and> ((\<exists>x. r = Inr x) \<longrightarrow>
                (\<exists>rep. accepted g rep \<and> Fetch req rep \<in> set evs) \<and> no_failed_patch g evs)"
proof -
  from run have run': "updateGatewayListSingle g url headers pl batchLabel (fst s, snd s)
                       = Some (r, s')" by simp
  from ne req run' obtain n
    where all: "\<forall>k<n. rate_limited (reply_after g req k (fst s))"
      and y: "(r, s') = (attempt_result g (reply_after g req n (fst s)),
              (world_after g req (Suc n) (fst s),
               snd s @ retries g batchLabel req n (fst s)
                  @ attempt_events g batchLabel req (reply_after g req n (fst s))))"
    by (rule single_settled) blast
  from all have least: "\<And>k. k < n \<Longrightarrow> rate_limited (reply_after g req k (fst s))"
    by blast
  define rep where "rep = reply_after g req n (fst s)"
  define evs where "evs = retries g batchLabel req n (fst s) @ attempt_events g batchLabel req rep"
  from y have r: "r = attempt_result g rep" and tr: "snd s' = snd s @ evs"
    by (simp_all add: rep_def evs_def)
  have m: "req_method req = ''PATCH''" and b: "req_body req = Some pl"
    by (simp_all add: req)
  have pp: "patch_payloads evs = replicate (Suc n) pl"
    unfolding evs_def patch_payloads_append
      patch_payloads_retries [OF m b] patch_payloads_attempt [OF m b]
    by (simp add: replicate_append_same)
  have nw: "list_all (\<lambda>ev. is_patch ev \<or> is_console_or_timer ev) evs"
    unfolding evs_def req list_all_append
    by (rule conjI [OF no_write_retries no_write_attempt])
  have ok: "(\<exists>x. r = Inr x) \<longrightarrow>
              (\<exists>rep. accepted g rep \<and> Fetch req rep \<in> set evs) \<and> no_failed_patch g evs"
  proof
    assume "\<exists>x. r = Inr x"
    with r have acc: "accepted g rep" by (simp add: accepted_iff)
    moreover have "Fetch req rep \<in> set evs"
      by (simp add: evs_def attempt_events_def)
    ultimately have one: "\<exists>rep. accepted g rep \<and> Fetch req rep \<in> set evs" by blast
    have "no_failed_patch g (retries g batchLabel req n (fst s))"
      unfolding no_failed_patch_def using retries_rate_limited [OF least] by blast
    moreover from acc have "no_failed_patch g (attempt_events g batchLabel req rep)"
      unfolding no_failed_patch_def attempt_events_def by (auto split: sum.splits)
    ultimately have "no_failed_patch g evs" by (simp add: evs_def)
    with one show "(\<exists>rep. accepted g rep \<and> Fetch req rep \<in> set evs) \<and> no_failed_patch g evs"
      by blast
  qed
  show ?thesis
    by (rule exI [of _ evs], rule exI [of _ n]) (intro conjI tr pp nw ok)
qed



lemma for_each_settled:
  assumes ne: "\<And>b. payload_append (mk b) \<noteq> None \<or> payload_remove (mk b) \<noteq> None"
  shows "for_each_batch (\<lambda>i b. updateGatewayListSingle g url headers (mk b) (lbl i)) i bs s
           = Some (r, s') \<Longrightarrow>
         \<exists>evs. snd s' = snd s @ evs
           \<and> set (patch_payloads evs) \<subseteq> mk ` set bs
           \<and> list_all (\<lambda>ev. is_patch ev \<or> is_console_or_timer ev) evs
           \<and> (r = Inr () \<longrightarrow>
                (\<forall>b \<in> set bs. \<exists>rep. accepted g rep
                    \<and> Fetch \<lparr>req_method = ''PATCH'', req_url = url, req_headers = headers,
                              req_body = Some (mk b)\<rparr> rep \<in> set evs)
                \<and> no_failed_patch g evs)"
proof (induction bs arbitrary: i s)
  case Nil
  then show ?case by simp
next
  case (Cons b bs)
  let ?req = "\<lparr>req_method = ''PATCH'', req_url = url, req_headers = headers,
                req_body = Some (mk b)\<rparr>"
  from Cons.prems
  have run: "await (updateGatewayListSingle g url headers (mk b) (lbl i))
               (\<lambda>_. for_each_batch (\<lambda>i b. updateGatewayListSingle g url headers (mk b) (lbl i))
                       (Suc i) bs) s = Some (r, s')"
    by simp
  then show ?case
  proof (cases rule: await_SomeE)
    case (rejected e)
    from single_trace [OF ne refl rejected(1)] obtain evs n
      where "snd s' = snd s @ evs" "patch_payloads evs = replicate (Suc n) (mk b)"
        "list_all (\<lambda>ev. is_patch ev \<or> is_console_or_timer ev) evs"
      by blast
    with rejected(2) show ?thesis by (intro exI [of _ evs]) auto
  next
    case (resolved x s1)
    from single_trace [OF ne refl resolved(1)] obtain evs1 n
      where e1: "snd s1 = snd s @ evs1" "patch_payloads evs1 = replicate (Suc n) (mk b)"
        "list_all (\<lambda>ev. is_patch ev \<or> is_console_or_timer ev) evs1"
        "\<exists>rep. accepted g rep \<and> Fetch ?req rep \<in> set evs1" "no_failed_patch g evs1"
      by blast
    from Cons.IH [OF resolved(2)] obtain evs2
      where e2: "snd s' = snd s1 @ evs2" "set (patch_payloads evs2) \<subseteq> mk ` set bs"
        "list_all (\<lambda>ev. is_patch ev \<or> is_console_or_timer ev) evs2"
        "r = Inr () \<longrightarrow> (\<forall>b \<in> set bs. \<exists>rep. accepted g rep
             \<and> Fetch \<lparr>req_method = ''PATCH'', req_url = url, req_headers = headers,
                       req_body = Some (mk b)\<rparr> rep \<in> set evs2)
             \<and> no_failed_patch g evs2"
      by blast
    from e1 e2 show ?thesis
      by (intro exI [of _ "evs1 @ evs2"]) (auto simp: list_all_iff)
  qed
qed

lemma payload_nonempty [simp]:
  "payload_append (append_payload b) \<noteq> None \<or> payload_remove (append_payload b) \<noteq> None"
  "payload_append (remove_payload b) \<noteq> None \<or> payload_remove (remove_payload b) \<noteq> None"
  by (simp_all add: append_payload_def remove_payload_def)

lemma updateGatewayListBatched_chunks:
  "0 < batchSize \<Longrightarrow>
   updateGatewayListBatched g env toAdd toRemove batchSize =
     await (for_each_batch (\<lambda>i batch.
              updateGatewayListSingle g (gateway_url env) (gateway_headers env)
                (append_payload batch)
                (''Append batch '' @ show_nat (i + 1) @ ''/''
                   @ show_nat (length (chunks batchSize toAdd))))
              0 (chunks batchSize toAdd)) (\<lambda>_.
     for_each_batch (\<lambda>i batch.
              updateGatewayListSingle g (gateway_url env) (gateway_headers env)
                (remove_payload batch)
                (''Remove batch '' @ show_nat (i + 1) @ ''/''
                   @ show_nat (length (chunks batchSize toRemove))))
              0 (chunks batchSize toRemove))"
  by (simp add: updateGatewayListBatched_def split_loop_from_zero append_payload_def
        remove_payload_def)


lemma batched_settled:
  assumes "0 < batchSize"
    and "updateGatewayListBatched g env toAdd toRemove batchSize s = Some (r, s')"
  shows "\<exists>evsA evsR. snd s' = snd s @ evsA @ evsR
          \<and> set (patch_payloads evsA) \<subseteq> append_payload ` set (chunks batchSize toAdd)
          \<and> set (patch_payloads evsR) \<subseteq> remove_payload ` set (chunks batchSize toRemove)
          \<and> list_all (\<lambda>ev. is_patch ev \<or> is_console_or_timer ev) (evsA @ evsR)
          \<and> (r = Inr () \<longrightarrow>
               (\<forall>pl \<in> append_payload ` set (chunks batchSize toAdd)
                        \<union> remove_payload ` set (chunks batchSize toRemove).
                  \<exists>rep. accepted g rep \<and> Fetch (patch_request env pl) rep \<in> set (evsA @ evsR))
               \<and> no_failed_patch g (evsA @ evsR))"
proof -
  from assms(2)
  have "await (for_each_batch (\<lambda>i batch.
              updateGatewayListSingle g (gateway_url env) (gateway_headers env)
                (append_payload batch)
                (''Append batch '' @ show_nat (i + 1) @ ''/''
                   @ show_nat (length (chunks batchSize toAdd))))
              0 (chunks batchSize toAdd)) (\<lambda>_.
     for_each_batch (\<lambda>i batch.
              updateGatewayListSingle g (gateway_url env) (gateway_headers env)
                (remove_payload batch)
                (''Remove batch '' @ show_nat (i + 1) @ ''/''
                   @ show_nat (length (chunks batchSize toRemove))))
              0 (chunks batchSize toRemove)) s = Some (r, s')"
    by (simp add: updateGatewayListBatched_chunks [OF assms(1)])
  then show ?thesis
  proof (cases rule: await_SomeE)
    case (rejected e)
    from for_each_settled [OF payload_nonempty(1) rejected(1)] obtain evs
      where "snd s' = snd s @ evs"
        "set (patch_payloads evs) \<subseteq> append_payload ` set (chunks batchSize toAdd)"
        "list_all (\<lambda>ev. is_patch ev \<or> is_console_or_timer ev) evs"
      by blast
    with rejected(2) show ?thesis
      by (intro exI [of _ evs] exI [of _ "[]"]) simp
  next
    case (resolved x s1)
    from for_each_settled [OF payload_nonempty(1) resolved(1)] obtain evs1
      where e1: "snd s1 = snd s @ evs1"
        "set (patch_payloads evs1) \<subseteq> append_payload ` set (chunks batchSize toAdd)"
        "list_all (\<lambda>ev. is_patch ev \<or> is_console_or_timer ev) evs1"
        "\<forall>b \<in> set (chunks batchSize toAdd). \<exists>rep. accepted g rep
            \<and> Fetch (patch_request env (append_payload b)) rep \<in> set evs1"
        "no_failed_patch g evs1"
      unfolding patch_request_def by auto
    from for_each_settled [OF payload_nonempty(2) resolved(2)] obtain evs2
      where e2: "snd s' = snd s1 @ evs2"
        "set (patch_payloads evs2) \<subseteq> remove_payload ` set (chunks batchSize toRemove)"
        "list_all (\<lambda>ev. is_patch ev \<or> is_console_or_timer ev) evs2"
        "r = Inr () \<longrightarrow> (\<forall>b \<in> set (chunks batchSize toRemove). \<exists>rep. accepted g rep
            \<and> Fetch (patch_request env (remove_payload b)) rep \<in> set evs2)
            \<and> no_failed_patch g evs2"
      unfolding patch_request_def by auto
    from e1 e2 show ?thesis
      by (intro exI [of _ evs1] exI [of _ evs2]) (auto simp: list_all_iff)
  qed
qed

subsection \<open>The stages of a run\<close>

lemma regex_test_asn: "regex_test asn_regex asn \<longleftrightarrow> asn_form asn"
proof -
  let ?D = "{w. w \<noteq> [] \<and> set w \<subseteq> set ''0123456789''}"
  have l: "lang asn_regex = conc {''A''} (conc {''S''} ?D)"
    by (simp only: asn_regex_def lang.simps digit_def lang_one_or_more_class)
  show ?thesis
  proof
    assume "regex_test asn_regex asn"
    then have "asn \<in> conc {''A''} (conc {''S''} ?D)"
      by (simp only: regex_test_lang l)
    then obtain a v where "asn = a @ v" "a \<in> {''A''}" "v \<in> conc {''S''} ?D"
      by (rule concE)
    moreover from this(3) obtain b ds where "v = b @ ds" "b \<in> {''S''}" "ds \<in> ?D"
      by (rule concE)
    ultimately have "asn = a @ b @ ds" "a \<in> {''A''}" "b \<in> {''S''}" "ds \<in> ?D"
      by simp_all
    then have "asn = ''AS'' @ ds" "ds \<noteq> []" "set ds \<subseteq> set ''0123456789''"
      by simp_all
    then show "asn_form asn" unfolding asn_form_def by blast
  next
    assume "asn_form asn"
    then obtain ds where a: "asn = ''AS'' @ ds" and d: "ds \<in> ?D"
      unfolding asn_form_def by blast
    from d have "''A'' @ ''S'' @ ds \<in> conc {''A''} (conc {''S''} ?D)"
      by (intro concI) simp_all
    with a have "asn \<in> lang asn_regex" by (simp only: l) simp
    then show "regex_test asn_regex asn" by (simp only: regex_test_lang)
  qed
qed

lemma local_read_only:
  "is_local_read ev \<Longrightarrow> \<not> is_fetch ev \<and> \<not> is_patch ev \<and> \<not> is_local_write ev"
  by (cases ev) simp_all

lemma local_write_only:
  "is_local_write ev \<Longrightarrow> \<not> is_fetch ev \<and> \<not> is_patch ev \<and> \<not> is_local_read ev"
  by (cases ev) simp_all

lemma patch_or_console_only:
  "is_patch ev \<or> is_console_or_timer ev \<Longrightarrow> \<not> is_local_write ev \<and> \<not> is_local_read ev"
  by (cases ev) simp_all

lemma fetchDesiredPrefixes_emits: "emits is_local_read (fetchDesiredPrefixes db table)"
  unfolding fetchDesiredPrefixes_def
  by (intro emits_try_catch emits_await emits_stmt_all emits_stmt_first emits_if
        emits_resolve emits_reject)
     (auto split: option.splits intro!: emits_await emits_stmt_all emits_stmt_first)

lemma fetchCurrentGatewayList_parsed:
  "await (completion (js_get data ''success'')) (\<lambda>success.
     if \<not> truthy success then no_items
     else
       await (completion (js_get data ''result'')) (\<lambda>result.
       if \<not> truthy result then no_items
       else
         await (completion (js_get result ''items'')) (\<lambda>items.
         if \<not> truthy items then no_items
         else completion (items_map_value items)))) s
   = Some (case list_reading data of
             Inl err \<Rightarrow> Inl err
           | Inr None \<Rightarrow> Inr []
           | Inr (Some vs) \<Rightarrow> Inr vs,
           (fst s, snd s @ (case list_reading data of
                              Inr None \<Rightarrow> [ConsoleWarn ''[API WARN] No items in Gateway list response'']
                            | _ \<Rightarrow> [])))"
  by (simp add: list_reading_def await_def completion_def no_items_def emit_def resolve_def
        split: sum.splits)

lemma fetchCurrentGatewayList_apply:
  "fetchCurrentGatewayList g env s =
     Some (case fst (global_fetch g (get_request env) (fst s)) of
             Inl m \<Rightarrow> Inl (Error (''Failed to fetch Gateway list: '' @ m))
           | Inr res \<Rightarrow>
               if \<not> ok res then
                 Inl (Error (''Failed to fetch Gateway list: ''
                        @ ''API request failed with status '' @ show_nat (res_status res)
                        @ '': '' @ res_text res))
               else (case JSON_parse g (res_text res) of
                 None \<Rightarrow> Inl (Error (''Failed to fetch Gateway list: ''
                                 @ ''Failed to parse API response: '' @ res_text res))
               | Some data \<Rightarrow>
                   (case list_reading data of
                      Inl err \<Rightarrow> Inl (Error (''Failed to fetch Gateway list: '' @ message err))
                    | Inr None \<Rightarrow> Inr []
                    | Inr (Some vs) \<Rightarrow> Inr vs)),
           (snd (global_fetch g (get_request env) (fst s)),
            snd s @ Fetch (get_request env) (fst (global_fetch g (get_request env) (fst s)))
              # (case fst (global_fetch g (get_request env) (fst s)) of
                   Inl m \<Rightarrow> []
                 | Inr res \<Rightarrow>
                     if \<not> ok res then []
                     else (case JSON_parse g (res_text res) of
                       None \<Rightarrow> []
                     | Some data \<Rightarrow>
                         (case list_reading data of
                            Inr None \<Rightarrow> [ConsoleWarn ''[API WARN] No items in Gateway list response'']
                          | _ \<Rightarrow> [])))))"
proof -
  let ?req = "\<lparr>req_method = ''GET'', req_url = gateway_url env,
               req_headers = gateway_headers env, req_body = None\<rparr>"
  obtain r w' where f: "global_fetch g ?req (fst s) = (r, w')"
    by (cases "global_fetch g ?req (fst s)")
  show ?thesis
  proof (cases r)
    case (Inl m)
    with f have d: "do_fetch g ?req s = Some (Inl (Error m), (w', snd s @ [Fetch ?req r]))"
      by (simp add: do_fetch_apply settle_def)
    show ?thesis
      unfolding fetchCurrentGatewayList_def try_catch_def
      by (simp add: await_Inl [where m = "do_fetch g ?req" and s = s, OF d] f Inl get_request_def reject_def)
  next
    case (Inr res)
    with f have d: "do_fetch g ?req s = Some (Inr res, (w', snd s @ [Fetch ?req r]))"
      by (simp add: do_fetch_apply settle_def)
    show ?thesis
    proof (cases "JSON_parse g (res_text res)")
      case None
      show ?thesis
        unfolding fetchCurrentGatewayList_def try_catch_def
        by (simp add: await_Inr [where m = "do_fetch g ?req" and s = s, OF d] f Inr None get_request_def reject_def)
    next
      case (Some data)
      show ?thesis
        unfolding fetchCurrentGatewayList_def try_catch_def
        by (simp add: await_Inr [where m = "do_fetch g ?req" and s = s, OF d] f Inr Some get_request_def reject_def
              fetchCurrentGatewayList_parsed split: sum.splits option.splits)
    qed
  qed
qed

lemma fetchCurrentGatewayList_emits:
  "emits (\<lambda>ev. (\<exists>r. ev = Fetch (get_request env) r) \<or> is_console_or_timer ev)
     (fetchCurrentGatewayList g env)"
  by (rule emitsI)
     (auto simp: fetchCurrentGatewayList_apply split: sum.splits option.splits if_splits)

subsection \<open>The reader of the remote list, in words\<close>

lemma truthy_not_nullish: "truthy v \<Longrightarrow> \<not> nullish v"
  by (cases v) (simp_all add: nullish_def)

lemma js_get_prop: "\<not> nullish v \<Longrightarrow> js_get v key = Inr (js_prop v key)"
  by (cases v) (simp_all add: nullish_def js_prop_def)

lemma js_get_nullish: "nullish v \<Longrightarrow> \<exists>err. js_get v key = Inl err"
  by (cases v) (simp_all add: nullish_def)

lemma map_value_fails: "(\<exists>err. map_value xs = Inl err) \<longleftrightarrow> list_ex nullish xs"
proof (induction xs)
  case Nil
  show ?case by simp
next
  case (Cons x xs)
  show ?case
  proof (cases "nullish x")
    case True
    with js_get_nullish [of x "''value''"] show ?thesis by auto
  next
    case False
    with Cons show ?thesis
      by (cases "map_value xs") (simp_all add: js_get_prop)
  qed
qed

lemma map_value_values:
  "\<not> list_ex nullish xs \<Longrightarrow> map_value xs = Inr (map (\<lambda>item. js_prop item ''value'') xs)"
  by (induction xs) (simp_all add: js_get_prop)

lemma list_reading_null: "nullish data \<Longrightarrow> \<exists>err. list_reading data = Inl err"
  using js_get_nullish [of data "''success''"] by (auto simp: list_reading_def)

lemma list_reading_no_items:
  "\<not> nullish data \<Longrightarrow> \<not> has_items data \<Longrightarrow> list_reading data = Inr None"
proof -
  assume d: "\<not> nullish data" and h: "\<not> has_items data"
  show ?thesis
  proof (cases "truthy (js_prop data ''success'') \<and> truthy (js_prop data ''result'')")
    case False
    with d show ?thesis by (auto simp: list_reading_def js_get_prop)
  next
    case True
    then have r: "\<not> nullish (js_prop data ''result'')" by (simp add: truthy_not_nullish)
    from True h have "\<not> truthy (js_prop (js_prop data ''result'') ''items'')"
      by (simp add: has_items_def)
    with d r True show ?thesis by (simp add: list_reading_def js_get_prop)
  qed
qed

lemma list_reading_items:
  assumes "has_items data" and "\<not> nullish data"
  shows "list_reading data =
           (case items_map_value (js_prop (js_prop data ''result'') ''items'') of
              Inl err \<Rightarrow> Inl err
            | Inr vs \<Rightarrow> Inr (Some vs))"
proof -
  from assms(1) have t: "truthy (js_prop data ''success'')" "truthy (js_prop data ''result'')"
      "truthy (js_prop (js_prop data ''result'') ''items'')"
    by (simp_all add: has_items_def)
  from t(2) have r: "\<not> nullish (js_prop data ''result'')" by (rule truthy_not_nullish)
  from assms(2) r t show ?thesis by (simp add: list_reading_def js_get_prop)
qed

lemma list_reading_fails: "(\<exists>err. list_reading data = Inl err) \<longleftrightarrow> unreadable data"
proof (cases "nullish data")
  case True
  with list_reading_null [OF True] show ?thesis by (simp add: unreadable_def)
next
  case False
  note d = this
  show ?thesis
  proof (cases "has_items data")
    case False
    with d list_reading_no_items [OF d False] show ?thesis by (simp add: unreadable_def)
  next
    case True
    show ?thesis
    proof (cases "js_prop (js_prop data ''result'') ''items''")
      case (JArr xs)
      have "(\<exists>err. list_reading data = Inl err) \<longleftrightarrow> (\<exists>err. map_value xs = Inl err)"
        unfolding list_reading_items [OF True d] JArr
        by (cases "map_value xs") simp_all
      with d True JArr show ?thesis by (simp add: unreadable_def map_value_fails)
    qed (use d True in \<open>simp_all add: unreadable_def list_reading_items\<close>)
  qed
qed

lemma list_reading_readable:
  assumes "\<not> unreadable data"
  shows "list_reading data = Inr (if has_items data then Some (item_values data) else None)"
proof -
  from assms have d: "\<not> nullish data" by (simp add: unreadable_def)
  show ?thesis
  proof (cases "has_items data")
    case False
    with list_reading_no_items [OF d False] show ?thesis by simp
  next
    case True
    with assms d obtain xs where xs: "js_prop (js_prop data ''result'') ''items'' = JArr xs"
      and ok: "\<not> list_ex nullish xs"
      by (cases "js_prop (js_prop data ''result'') ''items''") (simp_all add: unreadable_def)
    from True show ?thesis
      unfolding list_reading_items [OF True d] xs
      by (simp add: map_value_values [OF ok] item_values_def xs)
  qed
qed

lemma settlesD:
  assumes "settles m"
  shows "\<exists>r s'. m s = Some (r, s')"
proof -
  from assms have "m s \<noteq> None" unfolding settles_def by blast
  then obtain y where "m s = Some y" by blast
  then show ?thesis by (cases y) blast
qed

lemma settles_resolve [simp]: "settles (resolve x)"
  by (simp add: settles_def)

lemma settles_reject [simp]: "settles (reject e)"
  by (simp add: settles_def)

lemma settles_emit [simp]: "settles (emit ev)"
  by (simp add: settles_def)

lemma settles_await: "settles m \<Longrightarrow> (\<And>x. settles (f x)) \<Longrightarrow> settles (await m f)"
  unfolding settles_def await_def by (auto split: option.splits sum.splits)

lemma settles_try_catch: "settles m \<Longrightarrow> (\<And>e. settles (h e)) \<Longrightarrow> settles (try_catch m h)"
  unfolding settles_def try_catch_def by (auto split: option.splits sum.splits)

lemma settles_if: "settles m \<Longrightarrow> settles n \<Longrightarrow> settles (if b then m else n)"
  by simp

lemma settles_do_fetch [simp]: "settles (do_fetch g req)"
  by (simp add: settles_def do_fetch_apply)

lemma settles_stmt_first [simp]: "settles (stmt_first db st)"
  by (simp add: settles_def stmt_first_apply)

lemma settles_stmt_all [simp]: "settles (stmt_all db st)"
  by (simp add: settles_def stmt_all_apply)

lemma settles_stmt_run [simp]: "settles (stmt_run db st)"
  by (simp add: settles_def stmt_run_apply)

lemma settles_DB_batch [simp]: "settles (DB_batch db sts)"
  by (simp add: settles_def DB_batch_apply)

lemma fetchDesiredPrefixes_settles: "settles (fetchDesiredPrefixes db table)"
  unfolding fetchDesiredPrefixes_def
  by (intro settles_try_catch settles_await settles_if settles_stmt_all settles_stmt_first
        settles_reject settles_resolve)
     (auto split: option.splits intro!: settles_await)

lemma fetchCurrentGatewayList_settles: "settles (fetchCurrentGatewayList g env)"
  by (simp add: settles_def fetchCurrentGatewayList_apply)

lemma probe_parsed:
  "await (completion (js_get json ''success'')) (\<lambda>success.
     if \<not> truthy success then
       await (completion (js_get json ''errors'')) (\<lambda>errors.
       reject (Error (''Test update failed: ''
                 @ JSON_stringify g (if truthy errors then errors else json))))
     else resolve ()) s
   = Some (case js_get json ''success'' of
             Inl err \<Rightarrow> Inl err
           | Inr success \<Rightarrow>
               if \<not> truthy success
               then Inl (Error (''Test update failed: ''
                           @ JSON_stringify g (errors_or_body json)))
               else Inr (), s)"
  by (cases json)
     (simp_all add: await_def completion_def reject_def resolve_def errors_or_body_def)

lemma testGatewayListUpdate_apply:
  "testGatewayListUpdate g env pfx s =
     Some (probe_result g
             (fst (global_fetch g (patch_request env (append_payload [pfx])) (fst s))),
           (snd (global_fetch g (patch_request env (append_payload [pfx])) (fst s)),
            snd s @ Fetch (patch_request env (append_payload [pfx]))
                      (fst (global_fetch g (patch_request env (append_payload [pfx])) (fst s)))
              # (case probe_result g
                        (fst (global_fetch g (patch_request env (append_payload [pfx])) (fst s)))
                 of Inl err \<Rightarrow> [ConsoleError (''[ERROR] Test PATCH failed: '' @ message err)]
                  | Inr x \<Rightarrow> [])))"
proof -
  let ?req = "\<lparr>req_method = ''PATCH'', req_url = gateway_url env,
               req_headers = gateway_headers env,
               req_body = Some \<lparr>payload_append = Some [\<lparr>item_value = pfx\<rparr>],
                                payload_remove = None\<rparr>\<rparr>"
  have rq: "patch_request env (append_payload [pfx]) = ?req"
    by (simp add: patch_request_def append_payload_def)
  obtain r w' where f: "global_fetch g ?req (fst s) = (r, w')"
    by (cases "global_fetch g ?req (fst s)")
  show ?thesis
  proof (cases r)
    case (Inl m)
    with f have d: "do_fetch g ?req s = Some (Inl (Error m), (w', snd s @ [Fetch ?req r]))"
      by (simp add: do_fetch_apply settle_def)
    show ?thesis
      unfolding testGatewayListUpdate_def try_catch_def rq
      by (simp add: await_Inl [where m = "do_fetch g ?req" and s = s, OF d] f Inl
            probe_result_def test_catch_def await_emit reject_def)
  next
    case (Inr res)
    with f have d: "do_fetch g ?req s = Some (Inr res, (w', snd s @ [Fetch ?req r]))"
      by (simp add: do_fetch_apply settle_def)
    show ?thesis
    proof (cases "JSON_parse g (res_text res)")
      case None
      show ?thesis
        unfolding testGatewayListUpdate_def try_catch_def rq
        by (simp add: await_Inr [where m = "do_fetch g ?req" and s = s, OF d] f Inr None
              probe_result_def test_catch_def await_emit reject_def)
    next
      case (Some json)
      show ?thesis
        unfolding testGatewayListUpdate_def try_catch_def rq
        by (simp add: await_Inr [where m = "do_fetch g ?req" and s = s, OF d] f Inr Some
              probe_result_def test_catch_def await_emit reject_def probe_parsed
              split: sum.splits)
    qed
  qed
qed

lemma probe_accepted: "probe_result g r = Inr () \<longleftrightarrow> accepted g r"
  by (auto simp: probe_result_def accepted_def success_flag_def
        split: sum.splits option.splits)

lemma testGatewayListUpdate_settled:
  assumes "testGatewayListUpdate g env pfx s = Some (r, s')"
  shows "\<exists>evs. snd s' = snd s @ evs
           \<and> list_all (\<lambda>ev. is_patch ev \<or> is_console_or_timer ev) evs
           \<and> (r = Inr () \<longrightarrow> no_failed_patch g evs)"
proof -
  let ?rep = "fst (global_fetch g (patch_request env (append_payload [pfx])) (fst s))"
  from assms have r: "r = probe_result g ?rep"
    and tr: "snd s' = snd s @ Fetch (patch_request env (append_payload [pfx])) ?rep
              # (case probe_result g ?rep
                 of Inl err \<Rightarrow> [ConsoleError (''[ERROR] Test PATCH failed: '' @ message err)]
                  | Inr x \<Rightarrow> [])"
    by (auto simp: testGatewayListUpdate_apply)
  let ?evs = "Fetch (patch_request env (append_payload [pfx])) ?rep
              # (case probe_result g ?rep
                 of Inl err \<Rightarrow> [ConsoleError (''[ERROR] Test PATCH failed: '' @ message err)]
                  | Inr x \<Rightarrow> [])"
  have "list_all (\<lambda>ev. is_patch ev \<or> is_console_or_timer ev) ?evs"
    by (simp add: patch_request_def split: sum.splits)
  moreover have "r = Inr () \<longrightarrow> no_failed_patch g ?evs"
    using r by (auto simp: no_failed_patch_def probe_accepted)
  ultimately show ?thesis using tr by blast
qed

lemma insert_loop_emits_aux:
  "insert_loop db table pfxs i s = Some (r, s') \<Longrightarrow>
   \<exists>evs. snd s' = snd s @ evs \<and> list_all is_local_write evs"
proof (induction db table pfxs i s rule: insert_loop.induct)
  case (1 db table pfxs i s)
  show ?case
  proof (cases "i < length pfxs")
    case False
    with "1.prems" show ?thesis by (simp add: insert_loop.simps)
  next
    case True
    let ?sts = "map (\<lambda>p. \<lparr>stmt_sql =
                          ''INSERT OR IGNORE INTO synced_prefixes (asn, prefix) VALUES (?, ?)'',
                        stmt_binds = [table, p]\<rparr>) (slice pfxs i (i + 100))"
    let ?s1 = "(snd (d1_batch db ?sts (fst s)), snd s @ [D1_batch ?sts])"
    show ?thesis
    proof (cases "fst (d1_batch db ?sts (fst s))")
      case (Inl m)
      with True "1.prems" have "s' = ?s1"
        by (subst (asm) insert_loop.simps) (simp add: DB_batch_apply)
      then show ?thesis by simp
    next
      case (Inr results)
      with True have b: "DB_batch db ?sts s = Some (Inr results, ?s1)"
        by (simp add: DB_batch_apply)
      with True "1.prems" have "insert_loop db table pfxs (i + 100) ?s1 = Some (r, s')"
        by (subst (asm) insert_loop.simps) simp
      from "1.IH" [OF True b refl refl this] obtain evs
        where "snd s' = snd ?s1 @ evs" "list_all is_local_write evs" by blast
      then have "snd s' = snd s @ (D1_batch ?sts # evs)" "list_all is_local_write (D1_batch ?sts # evs)"
        by simp_all
      then show ?thesis by blast
    qed
  qed
qed

lemma insert_loop_emits: "emits is_local_write (insert_loop db table pfxs i)"
  by (rule emitsI) (rule insert_loop_emits_aux)

lemma insert_loop_settles_aux: "insert_loop db table pfxs i s \<noteq> None"
proof (induction db table pfxs i s rule: insert_loop.induct)
  case (1 db table pfxs i s)
  show ?case
  proof (cases "i < length pfxs")
    case False
    then show ?thesis by (simp add: insert_loop.simps)
  next
    case True
    let ?sts = "map (\<lambda>p. \<lparr>stmt_sql =
                          ''INSERT OR IGNORE INTO synced_prefixes (asn, prefix) VALUES (?, ?)'',
                        stmt_binds = [table, p]\<rparr>) (slice pfxs i (i + 100))"
    let ?s1 = "(snd (d1_batch db ?sts (fst s)), snd s @ [D1_batch ?sts])"
    show ?thesis
    proof (cases "fst (d1_batch db ?sts (fst s))")
      case (Inl m)
      with True show ?thesis
        by (subst insert_loop.simps) (simp add: DB_batch_apply)
    next
      case (Inr results)
      with True have b: "DB_batch db ?sts s = Some (Inr results, ?s1)"
        by (simp add: DB_batch_apply)
      from "1.IH" [OF True b refl refl] b True show ?thesis
        by (subst insert_loop.simps) simp
    qed
  qed
qed

lemma insert_loop_settles: "settles (insert_loop db table pfxs i)"
  by (simp add: settles_def insert_loop_settles_aux)

lemma updateSyncedPrefixes_emits: "emits is_local_write (updateSyncedPrefixes db table pfxs)"
  unfolding updateSyncedPrefixes_def
  by (intro emits_try_catch emits_await emits_stmt_run emits_if emits_resolve emits_reject
        insert_loop_emits) simp

lemma updateSyncedPrefixes_settles: "settles (updateSyncedPrefixes db table pfxs)"
  unfolding updateSyncedPrefixes_def
  by (intro settles_try_catch settles_await settles_if settles_stmt_run settles_resolve
        settles_reject insert_loop_settles)

lemma recordSyncTime_emits: "emits is_local_write (recordSyncTime g db asn)"
  unfolding recordSyncTime_def
  by (rule emits_try_catch)
     (auto intro!: emitsI simp: await_def stmt_run_apply split: sum.splits)

lemma recordSyncTime_settles: "settles (recordSyncTime g db asn)"
  unfolding recordSyncTime_def
  by (rule settles_try_catch) (auto simp: settles_def await_def stmt_run_apply split: sum.splits)

lemma persist_emits:
  "emits is_local_write
     (await (updateSyncedPrefixes db asn v) (\<lambda>_. recordSyncTime g db asn))"
  by (intro emits_await updateSyncedPrefixes_emits recordSyncTime_emits)

lemma persist_settles:
  "settles (await (updateSyncedPrefixes db asn v) (\<lambda>_. recordSyncTime g db asn))"
  by (intro settles_await updateSyncedPrefixes_settles recordSyncTime_settles)

lemma load_emits: "emits (\<lambda>ev. \<not> is_local_write ev \<and> \<not> is_patch ev) (load g env db asn)"
  unfolding load_def last_run_query_def
  by (intro emits_await emits_resolve emits_stmt_first
        emits_mono [OF fetchDesiredPrefixes_emits]
        emits_mono [OF fetchCurrentGatewayList_emits])
     (auto simp: get_request_def elim: is_local_read.elims is_console_or_timer.elims)

lemma load_settles: "settles (load g env db asn)"
  unfolding load_def
  by (intro settles_await settles_stmt_first fetchDesiredPrefixes_settles
        fetchCurrentGatewayList_settles settles_resolve)

lemma syncASN_load:
  assumes "regex_test asn_regex asn" and "DB env = Some db"
    and "\<not> (falsy (ACCOUNT_ID env) \<or> falsy (LIST_ID env) \<or> falsy (API_EMAIL env)
             \<or> falsy (API_KEY env))"
  shows "syncASN g env asn s =
         await (load g env db asn)
           (\<lambda>(desired, existing). reconcile g env db asn desired existing) s"
  using assms
  by (simp add: syncASN_def load_def last_run_query_def await_def
        split: option.splits sum.splits prod.splits)

lemma syncASN_early:
  assumes "\<not> regex_test asn_regex asn \<or> DB env = None
     \<or> falsy (ACCOUNT_ID env) \<or> falsy (LIST_ID env) \<or> falsy (API_EMAIL env)
     \<or> falsy (API_KEY env)"
  shows "\<exists>e. syncASN g env asn s = Some (Inl e, s)"
  using assms by (auto simp: syncASN_def split: option.splits)

lemma reconcile_unfold:
  "reconcile g env db asn desired existing s =
     (if valid_desired desired = [] \<and> desired \<noteq> [] then
        Some (Inl (Error ''No valid prefixes after filtering; check prefix format''),
              (fst s, snd s @ warn_skipped desired))
      else
        await (updateGatewayListBatched g env
                 (fst (diff_stage (map JStr (valid_desired desired)) existing))
                 (snd (diff_stage (map JStr (valid_desired desired)) existing)) 50) (\<lambda>_.
        await (if fst (diff_stage (map JStr (valid_desired desired)) existing) \<noteq> []
               then testGatewayListUpdate g env
                      (fst (diff_stage (map JStr (valid_desired desired)) existing) ! 0)
               else resolve ()) (\<lambda>_.
        await (updateSyncedPrefixes db asn (valid_desired desired)) (\<lambda>_.
        recordSyncTime g db asn)))
          (fst s, snd s @ warn_skipped desired))"
  by (simp add: reconcile_def valid_desired_def warn_skipped_def Let_def await_emit
        split: prod.splits)

subsection \<open>A chunk that fails\<close>






subsection \<open>The scripted scenario, run\<close>

lemma sim_valid_prefix: "isValidCIDR ''1.1.1.0/24''"
  by code_simp

lemma sim_valid_asn: "regex_test asn_regex ''AS1''"
  by code_simp

lemma sim_env_ready:
  "DB sim_env = Some sim_d1"
  "\<not> (falsy (ACCOUNT_ID sim_env) \<or> falsy (LIST_ID sim_env) \<or> falsy (API_EMAIL sim_env)
      \<or> falsy (API_KEY sim_env))"
  by (simp_all add: sim_env_def falsy_def)

lemma sim_valid_desired: "valid_desired [''1.1.1.0/24''] = [''1.1.1.0/24'']"
  by (simp add: valid_desired_def sim_valid_prefix new_Set_def Set_add_def)

lemma sim_first_load:
  "load two_runs_globals sim_env sim_d1 ''AS1'' (two_runs_start, []) =
     Some (Inr ([''1.1.1.0/24''], []),
           (two_runs_start\<lparr>sim_replies := tl (sim_replies two_runs_start)\<rparr>,
            take 3 first_run_trace))"
  by (simp add: load_def await_def stmt_first_apply fetchDesiredPrefixes_def try_catch_def
        stmt_all_apply fetchCurrentGatewayList_apply sim_d1_def two_runs_globals_def
        sim_globals_def sim_fetch_def ok_def last_run_query_def desired_query_def
        two_runs_start_def first_run_trace_def list_reading_def)

lemma sim_append_batch:
  "updateGatewayListBatched two_runs_globals sim_env [JStr ''1.1.1.0/24''] [] 50
     (two_runs_start\<lparr>sim_replies := tl (sim_replies two_runs_start)\<rparr>, take 3 first_run_trace)
   = Some (Inr (),
           (two_runs_start\<lparr>sim_replies := tl (tl (sim_replies two_runs_start))\<rparr>,
            take 4 first_run_trace))"
proof -
  let ?pl = "append_payload [JStr ''1.1.1.0/24'']"
  let ?s = "(two_runs_start\<lparr>sim_replies := tl (sim_replies two_runs_start)\<rparr>,
             take 3 first_run_trace)"
  have c1: "chunks 50 [JStr ''1.1.1.0/24''] = [[JStr ''1.1.1.0/24'']]"
    by (simp add: chunks_step)
  have rq: "patch_request sim_env ?pl =
      \<lparr>req_method = ''PATCH'', req_url = gateway_url sim_env,
       req_headers = gateway_headers sim_env, req_body = Some ?pl\<rparr>"
    by (simp add: patch_request_def)
  have rep: "fst (global_fetch two_runs_globals (patch_request sim_env ?pl) (fst ?s))
             = Inr \<lparr>res_status = 200, res_text = ''ok''\<rparr>"
    by (simp add: two_runs_globals_def sim_globals_def sim_fetch_def two_runs_start_def)
  have w: "snd (global_fetch two_runs_globals (patch_request sim_env ?pl) (fst ?s))
             = two_runs_start\<lparr>sim_replies := tl (tl (sim_replies two_runs_start))\<rparr>"
    by (simp add: two_runs_globals_def sim_globals_def sim_fetch_def two_runs_start_def)
  have nr: "\<not> rate_limited (fst (global_fetch two_runs_globals (patch_request sim_env ?pl)
                                   (fst ?s)))"
    unfolding rep by (simp add: rate_limited_def)
  have single: "updateGatewayListSingle two_runs_globals (gateway_url sim_env)
          (gateway_headers sim_env) ?pl lbl ?s
        = Some (Inr JUndefined,
           (two_runs_start\<lparr>sim_replies := tl (tl (sim_replies two_runs_start))\<rparr>,
            take 4 first_run_trace))"
    for lbl
    unfolding single_final [OF payload_nonempty(1) rq nr] rep w
    by (simp add: attempt_result_def attempt_events_def ok_def two_runs_globals_def
          sim_globals_def first_run_trace_def body_result_def)
  show ?thesis
    unfolding updateGatewayListBatched_chunks [of 50, simplified] c1 chunks_Nil
    by (simp add: await_def single del: One_nat_def)
qed

lemma sim_probe:
  "testGatewayListUpdate two_runs_globals sim_env (JStr ''1.1.1.0/24'')
     (two_runs_start\<lparr>sim_replies := tl (tl (sim_replies two_runs_start))\<rparr>,
      take 4 first_run_trace)
   = Some (Inr (), (two_runs_between, take 5 first_run_trace))"
  by (simp add: testGatewayListUpdate_apply probe_result_def ok_def two_runs_globals_def
        sim_globals_def sim_fetch_def two_runs_start_def two_runs_between_def
        first_run_trace_def)

lemma sim_persist:
  "await (updateSyncedPrefixes sim_d1 ''AS1'' [''1.1.1.0/24''])
     (\<lambda>_. recordSyncTime two_runs_globals sim_d1 ''AS1'') (w, tr)
   = Some (Inr (), (w, tr @ drop 5 first_run_trace))"
proof -
  have loop: "insert_loop sim_d1 ''AS1'' [''1.1.1.0/24''] 0 s =
      Some (Inr (), (fst s, snd s @ [D1_batch [\<lparr>stmt_sql =
                  ''INSERT OR IGNORE INTO synced_prefixes (asn, prefix) VALUES (?, ?)'',
                 stmt_binds = [''AS1'', ''1.1.1.0/24'']\<rparr>]]))" for s :: "sim state"
    by (subst insert_loop.simps, simp add: DB_batch_apply sim_d1_def slice_def,
        subst insert_loop.simps, simp)
  have ran: "d1_run sim_d1 st v = (Inr 0, v)" for st v
    by (simp add: sim_d1_def)
  show ?thesis
    by (simp add: updateSyncedPrefixes_def recordSyncTime_def try_catch_def await_def
          stmt_run_apply loop ran first_run_trace_def two_runs_globals_def sim_globals_def)
qed

lemma sim_first_run:
  "syncASN two_runs_globals sim_env ''AS1'' (two_runs_start, []) =
     Some (Inr (), (two_runs_between, first_run_trace))"
proof -
  have w: "warn_skipped [''1.1.1.0/24''] = []"
    by (simp add: warn_skipped_def sim_valid_desired)
  have d: "diff_stage [JStr ''1.1.1.0/24''] [] = ([JStr ''1.1.1.0/24''], [])"
    by (simp add: diff_stage_eq)
  have t: "take 5 first_run_trace @ drop 5 first_run_trace = first_run_trace"
    by simp
  show ?thesis
    unfolding syncASN_load [OF sim_valid_asn sim_env_ready]
    by (simp add: await_def sim_first_load reconcile_unfold sim_valid_desired w d
          sim_append_batch sim_probe sim_persist [unfolded await_def] t
          del: append_take_drop_id)
qed

lemma sim_second_load:
  "load two_runs_globals sim_env sim_d1 ''AS1'' (two_runs_between, first_run_trace) =
     Some (Inr ([''1.1.1.0/24''], [JStr ''1.1.1.0/24'']),
           (two_runs_between\<lparr>sim_replies := []\<rparr>,
            first_run_trace @
              [D1_first (last_run_query ''AS1''), D1_all (desired_query ''AS1''),
               Fetch (get_request sim_env) (Inr \<lparr>res_status = 200, res_text = ''one''\<rparr>)]))"
  by (simp add: load_def await_def stmt_first_apply fetchDesiredPrefixes_def try_catch_def
        stmt_all_apply fetchCurrentGatewayList_apply sim_d1_def two_runs_globals_def
        sim_globals_def sim_fetch_def ok_def last_run_query_def desired_query_def
        two_runs_between_def list_reading_def)



section \<open>The specification, statement by statement\<close>

subsection \<open>C5: the CIDR validator\<close>

text \<open>
  C5, as the code has it. \<^verbatim>\<open>isValidCIDR\<close> is total (it never raises) and holds of
  exactly the strings of one of two forms: four groups of one to three decimal digits
  separated by dots, a slash and one or two digits; or a non-empty run of characters that
  are hexadecimal digits or colons, a slash and one to three digits. Nothing is checked
  about the range of an octet or of the prefix length, and the second form does not ask
  for a colon.
\<close>

theorem isValidCIDR_grammar:
  "isValidCIDR s \<longleftrightarrow> ipv4_cidr_form s \<or> hex_colon_cidr_form s"
  unfolding isValidCIDR_def regex_test_lang cidr_regex_def
  by (simp only: lang.simps(6) lang_ipv4_part lang_hex_part Un_iff mem_Collect_eq)

theorem isValidCIDR_grammar_witness:
  "(ipv4_cidr_form ''999.999.999.999/99'' \<or> hex_colon_cidr_form ''999.999.999.999/99'')
   \<and> (ipv4_cidr_form ''2001:db8::/32'' \<or> hex_colon_cidr_form ''2001:db8::/32'')
   \<and> \<not> (ipv4_cidr_form ''1.1.1.0'' \<or> hex_colon_cidr_form ''1.1.1.0'')
   \<and> \<not> (ipv4_cidr_form ''not-a-cidr'' \<or> hex_colon_cidr_form ''not-a-cidr'')"
proof -
  have a: "isValidCIDR ''999.999.999.999/99''" by code_simp
  have b: "isValidCIDR ''2001:db8::/32''" by code_simp
  have c: "\<not> isValidCIDR ''1.1.1.0''" by code_simp
  have d: "\<not> isValidCIDR ''not-a-cidr''" by code_simp
  from a b c d show ?thesis
    using isValidCIDR_grammar [of "''999.999.999.999/99''"]
      isValidCIDR_grammar [of "''2001:db8::/32''"]
      isValidCIDR_grammar [of "''1.1.1.0''"]
      isValidCIDR_grammar [of "''not-a-cidr''"]
    by blast
qed

text \<open>
  C5 as stated asks for a colon in the second form. The string \<open>12/3\<close> has no colon and
  is no dotted quad, and the validator accepts it.
\<close>

theorem isValidCIDR_colon_counterexample:
  "isValidCIDR ''12/3'' \<and> \<not> ipv4_cidr_form ''12/3'' \<and> \<not> colon_containing_cidr_form ''12/3''"
proof -
  have "isValidCIDR ''12/3''" by code_simp
  moreover have "\<not> ipv4_cidr_form ''12/3''"
  proof
    assume "ipv4_cidr_form ''12/3''"
    then obtain a r where "''12/3'' = a @ ''.'' @ r"
      unfolding ipv4_cidr_form_def by blast
    then have "set ''12/3'' = set (a @ ''.'' @ r)" by simp
    then have "CHR ''.'' \<in> set ''12/3''" by (simp only: set_append) simp
    then show False by simp
  qed
  moreover have "\<not> colon_containing_cidr_form ''12/3''"
  proof
    assume "colon_containing_cidr_form ''12/3''"
    then obtain g p where "''12/3'' = g @ ''/'' @ p" and "CHR '':'' \<in> set g"
      unfolding colon_containing_cidr_form_def by blast
    then have "set ''12/3'' = set (g @ ''/'' @ p)" and "CHR '':'' \<in> set g" by simp_all
    then have "CHR '':'' \<in> set ''12/3''" by (simp only: set_append) simp
    then show False by simp
  qed
  ultimately show ?thesis by blast
qed

subsection \<open>C1: the diff\<close>

text \<open>
  C1. For deduplicated lists \<open>D\<close> (desired) and \<open>R\<close> (remote), the diff of
  \<^verbatim>\<open>syncASN\<close> gives \<open>toAdd\<close>, the members of \<open>D\<close> that are not in \<open>R\<close>, and
  \<open>toRemove\<close>, the members of \<open>R\<close> that are not in \<open>D\<close>, each in the order of its
  source list and without repetition; membership is equality of strings. So \<open>toAdd\<close>
  shares nothing with \<open>R\<close> and \<open>toRemove\<close> nothing with \<open>D\<close>.
\<close>

theorem diff_stage_set_difference:
  assumes "distinct D" and "distinct R" and "diff_stage D R = (toAdd, toRemove)"
  shows "set toAdd = set D - set R \<and> set toRemove = set R - set D
       \<and> toAdd = filter (\<lambda>p. p \<notin> set R) D \<and> toRemove = filter (\<lambda>p. p \<notin> set D) R
       \<and> distinct toAdd \<and> distinct toRemove
       \<and> set toAdd \<inter> set R = {} \<and> set toRemove \<inter> set D = {}"
  using assms by (auto simp: diff_stage_eq)

theorem diff_stage_set_difference_witness:
  "distinct [''1.1.1.0/24'', ''2.2.2.0/24''] \<and> distinct [''2.2.2.0/24'', ''3.3.3.0/24'']
   \<and> diff_stage [''1.1.1.0/24'', ''2.2.2.0/24''] [''2.2.2.0/24'', ''3.3.3.0/24'']
       = ([''1.1.1.0/24''], [''3.3.3.0/24''])
   \<and> set [''1.1.1.0/24''] = set [''1.1.1.0/24'', ''2.2.2.0/24''] - set [''2.2.2.0/24'', ''3.3.3.0/24'']
   \<and> set [''3.3.3.0/24''] = set [''2.2.2.0/24'', ''3.3.3.0/24''] - set [''1.1.1.0/24'', ''2.2.2.0/24'']"
proof -
  have d: "distinct [''1.1.1.0/24'', ''2.2.2.0/24'']"
    and r: "distinct [''2.2.2.0/24'', ''3.3.3.0/24'']"
    by simp_all
  have e: "diff_stage [''1.1.1.0/24'', ''2.2.2.0/24''] [''2.2.2.0/24'', ''3.3.3.0/24'']
           = ([''1.1.1.0/24''], [''3.3.3.0/24''])"
    by (simp add: diff_stage_def new_Set_def Set_add_def Set_has_def)
  from diff_stage_set_difference [OF d r e] d r e show ?thesis by blast
qed

subsection \<open>C2: the batches of the updater\<close>



subsection \<open>C3: one chunk, rate limiting and failure\<close>




subsection \<open>C4: reading the remote list\<close>

text \<open>
  C4, as the code has it. \<^verbatim>\<open>fetchCurrentGatewayList\<close> sends one GET request and always
  settles. It fails exactly when the fetch or the read of the body rejects, the status is
  outside 2xx, the body does not parse, the parsed body is \<^verbatim>\<open>null\<close>, or the body has
  items (\<^verbatim>\<open>success\<close>, \<^verbatim>\<open>result\<close> and the \<^verbatim>\<open>items\<close> of the result are truthy) that are
  no array or an array with a \<^verbatim>\<open>null\<close> in it; the error then starts with
  \<open>Failed to fetch Gateway list: \<close>. In every other case it resolves: with the empty list,
  after a warning, when the body has no items (a success flag that is false is such a
  body), and otherwise with the value fields of the items, in order and with their
  repetitions.
\<close>

theorem fetchCurrentGatewayList_outcomes:
  "\<exists>r evs. fetchCurrentGatewayList g env s =
        Some (r, (snd (global_fetch g (get_request env) (fst s)),
                  snd s @ Fetch (get_request env) (fst (global_fetch g (get_request env) (fst s)))
                    # evs))
     \<and> list_all is_console_or_timer evs
     \<and> ((\<exists>e. r = Inl e) \<longleftrightarrow>
          (case fst (global_fetch g (get_request env) (fst s)) of
             Inl m \<Rightarrow> True
           | Inr res \<Rightarrow>
               \<not> ok res
               \<or> (case JSON_parse g (res_text res) of
                     None \<Rightarrow> True
                   | Some data \<Rightarrow> unreadable data)))
     \<and> (\<forall>e. r = Inl e \<longrightarrow> prefix ''Failed to fetch Gateway list: '' (message e))
     \<and> (\<forall>res data. fst (global_fetch g (get_request env) (fst s)) = Inr res \<and> ok res
            \<and> JSON_parse g (res_text res) = Some data \<and> \<not> unreadable data \<longrightarrow>
          r = Inr (if has_items data then item_values data else [])
          \<and> evs = (if has_items data then []
                   else [ConsoleWarn ''[API WARN] No items in Gateway list response'']))"
proof (cases "fst (global_fetch g (get_request env) (fst s))")
  case (Inl m)
  then show ?thesis unfolding fetchCurrentGatewayList_apply by simp
next
  case (Inr res)
  note rep = this
  show ?thesis
  proof (cases "ok res")
    case False
    with rep show ?thesis unfolding fetchCurrentGatewayList_apply by simp
  next
    case True
    note okr = this
    show ?thesis
    proof (cases "JSON_parse g (res_text res)")
      case None
      with rep okr show ?thesis unfolding fetchCurrentGatewayList_apply by simp
    next
      case (Some data)
      show ?thesis
      proof (cases "unreadable data")
        case True
        then obtain err where "list_reading data = Inl err"
          unfolding list_reading_fails [symmetric] by blast
        with rep okr Some True show ?thesis
          unfolding fetchCurrentGatewayList_apply by simp
      next
        case False
        from list_reading_readable [OF False] rep okr Some False show ?thesis
          unfolding fetchCurrentGatewayList_apply by simp
      qed
    qed
  qed
qed

theorem fetchCurrentGatewayList_outcomes_witness:
  "(\<exists>evs. fetchCurrentGatewayList
      (sim_globals [(''two'', JObj [(''success'', JBool True),
          (''result'', JObj [(''items'', JArr [JObj [(''value'', JStr ''2.2.2.0/24'')],
                                               JObj [(''value'', JStr ''2.2.2.0/24'')]])])]),
        (''null'', JNull)])
      sim_env
      (\<lparr>sim_replies = [Inr \<lparr>res_status = 200, res_text = ''two''\<rparr>],
        sim_rows = [], sim_table = None\<rparr>, [])
    = Some (Inr [JStr ''2.2.2.0/24'', JStr ''2.2.2.0/24''],
            (\<lparr>sim_replies = [], sim_rows = [], sim_table = None\<rparr>,
             Fetch (get_request sim_env) (Inr \<lparr>res_status = 200, res_text = ''two''\<rparr>) # evs))
      \<and> evs = [])
   \<and> (\<exists>e s'. fetchCurrentGatewayList
      (sim_globals [(''two'', JObj [(''success'', JBool True),
          (''result'', JObj [(''items'', JArr [JObj [(''value'', JStr ''2.2.2.0/24'')],
                                               JObj [(''value'', JStr ''2.2.2.0/24'')]])])]),
        (''null'', JNull)])
      sim_env
      (\<lparr>sim_replies = [Inr \<lparr>res_status = 200, res_text = ''null''\<rparr>],
        sim_rows = [], sim_table = None\<rparr>, [])
    = Some (Inl e, s') \<and> prefix ''Failed to fetch Gateway list: '' (message e))"
proof -
  let ?two = "JObj [(''success'', JBool True),
          (''result'', JObj [(''items'', JArr [JObj [(''value'', JStr ''2.2.2.0/24'')],
                                               JObj [(''value'', JStr ''2.2.2.0/24'')]])])]"
  let ?g = "sim_globals [(''two'', ?two), (''null'', JNull)]"
  let ?s = "(\<lparr>sim_replies = [Inr \<lparr>res_status = 200, res_text = ''two''\<rparr>],
       sim_rows = [], sim_table = None\<rparr>, []::event list)"
  let ?n = "(\<lparr>sim_replies = [Inr \<lparr>res_status = 200, res_text = ''null''\<rparr>],
       sim_rows = [], sim_table = None\<rparr>, []::event list)"
  have rep: "fst (global_fetch ?g (get_request sim_env) (fst ?s))
             = Inr \<lparr>res_status = 200, res_text = ''two''\<rparr>"
    by (simp add: sim_globals_def sim_fetch_def)
  have w: "snd (global_fetch ?g (get_request sim_env) (fst ?s))
             = \<lparr>sim_replies = [], sim_rows = [], sim_table = None\<rparr>"
    by (simp add: sim_globals_def sim_fetch_def)
  have okr: "ok \<lparr>res_status = 200, res_text = ''two''\<rparr>" by (simp add: ok_def)
  have parse: "JSON_parse ?g (res_text \<lparr>res_status = 200, res_text = ''two''\<rparr>) = Some ?two"
    by (simp add: sim_globals_def)
  have items: "has_items ?two" by (simp add: has_items_def js_prop_def)
  have readable: "\<not> unreadable ?two"
    by (simp add: unreadable_def has_items_def js_prop_def nullish_def)
  have vals: "item_values ?two = [JStr ''2.2.2.0/24'', JStr ''2.2.2.0/24'']"
    by (simp add: item_values_def js_prop_def)
  from fetchCurrentGatewayList_outcomes [of ?g sim_env ?s] obtain r evs
    where run: "fetchCurrentGatewayList ?g sim_env ?s =
        Some (r, (snd (global_fetch ?g (get_request sim_env) (fst ?s)),
                  snd ?s @ Fetch (get_request sim_env)
                    (fst (global_fetch ?g (get_request sim_env) (fst ?s))) # evs))"
      and val: "\<forall>res data. fst (global_fetch ?g (get_request sim_env) (fst ?s)) = Inr res
            \<and> ok res \<and> JSON_parse ?g (res_text res) = Some data \<and> \<not> unreadable data \<longrightarrow>
          r = Inr (if has_items data then item_values data else [])
          \<and> evs = (if has_items data then []
                   else [ConsoleWarn ''[API WARN] No items in Gateway list response''])"
    by blast
  from val [rule_format, OF conjI [OF rep conjI [OF okr conjI [OF parse readable]]]] items vals
  have r: "r = Inr [JStr ''2.2.2.0/24'', JStr ''2.2.2.0/24'']" and e: "evs = []"
    by simp_all
  from run have "fetchCurrentGatewayList ?g sim_env ?s =
      Some (Inr [JStr ''2.2.2.0/24'', JStr ''2.2.2.0/24''],
           (\<lparr>sim_replies = [], sim_rows = [], sim_table = None\<rparr>,
            Fetch (get_request sim_env) (Inr \<lparr>res_status = 200, res_text = ''two''\<rparr>) # evs))"
    unfolding rep w r by simp
  with e have first: "\<exists>evs. fetchCurrentGatewayList ?g sim_env ?s =
      Some (Inr [JStr ''2.2.2.0/24'', JStr ''2.2.2.0/24''],
           (\<lparr>sim_replies = [], sim_rows = [], sim_table = None\<rparr>,
            Fetch (get_request sim_env) (Inr \<lparr>res_status = 200, res_text = ''two''\<rparr>) # evs))
      \<and> evs = []"
    by blast
  have repn: "fst (global_fetch ?g (get_request sim_env) (fst ?n))
             = Inr \<lparr>res_status = 200, res_text = ''null''\<rparr>"
    by (simp add: sim_globals_def sim_fetch_def)
  have cond: "(case fst (global_fetch ?g (get_request sim_env) (fst ?n)) of
             Inl m \<Rightarrow> True
           | Inr res \<Rightarrow>
               \<not> ok res
               \<or> (case JSON_parse ?g (res_text res) of
                     None \<Rightarrow> True
                   | Some data \<Rightarrow> unreadable data))"
    unfolding repn by (simp add: sim_globals_def unreadable_def nullish_def)
  from fetchCurrentGatewayList_outcomes [of ?g sim_env ?n] obtain rn evsn
    where runn: "fetchCurrentGatewayList ?g sim_env ?n =
        Some (rn, (snd (global_fetch ?g (get_request sim_env) (fst ?n)),
                  snd ?n @ Fetch (get_request sim_env)
                    (fst (global_fetch ?g (get_request sim_env) (fst ?n))) # evsn))"
      and iff: "(\<exists>e. rn = Inl e) \<longleftrightarrow>
          (case fst (global_fetch ?g (get_request sim_env) (fst ?n)) of
             Inl m \<Rightarrow> True
           | Inr res \<Rightarrow>
               \<not> ok res
               \<or> (case JSON_parse ?g (res_text res) of
                     None \<Rightarrow> True
                   | Some data \<Rightarrow> unreadable data))"
      and pre: "\<forall>e. rn = Inl e \<longrightarrow> prefix ''Failed to fetch Gateway list: '' (message e)"
    by blast
  from iff cond obtain e where rn: "rn = Inl e" by blast
  with pre have "prefix ''Failed to fetch Gateway list: '' (message e)" by blast
  with runn rn have second: "\<exists>e s'. fetchCurrentGatewayList ?g sim_env ?n = Some (Inl e, s')
      \<and> prefix ''Failed to fetch Gateway list: '' (message e)"
    by blast
  from first second show ?thesis by (rule conjI)
qed

text \<open>
  C4 as stated has a body with a false success flag fail. The reader answers such a body
  with the empty list.
\<close>

theorem fetchCurrentGatewayList_success_false_counterexample:
  "JSON_parse (sim_globals [(''no'', JObj [(''success'', JBool False)])]) ''no''
     = Some (JObj [(''success'', JBool False)])
   \<and> fetchCurrentGatewayList
        (sim_globals [(''no'', JObj [(''success'', JBool False)])]) sim_env
        (\<lparr>sim_replies = [Inr \<lparr>res_status = 200, res_text = ''no''\<rparr>],
          sim_rows = [], sim_table = None\<rparr>, [])
      = Some (Inr [],
              (\<lparr>sim_replies = [], sim_rows = [], sim_table = None\<rparr>,
               [Fetch (get_request sim_env) (Inr \<lparr>res_status = 200, res_text = ''no''\<rparr>),
                ConsoleWarn ''[API WARN] No items in Gateway list response'']))"
  by (simp add: fetchCurrentGatewayList_apply sim_globals_def sim_fetch_def ok_def
        list_reading_def)

subsection \<open>C7: the ASN gate\<close>

text \<open>
  C7. The pattern of the ASN holds of exactly the strings made of the letters AS and one
  or more decimal digits. For every other string \<^verbatim>\<open>syncASN\<close> rejects with
  \<open>Invalid ASN format\<close> and the entry point answers 400, in both cases leaving the world
  and the trace as they were: no store call and no request has been made. So a run of
  \<^verbatim>\<open>syncASN\<close> that has made any call (the query with the table name among them) had an
  ASN of that form.
\<close>

theorem syncASN_asn_gate:
  "(regex_test asn_regex asn \<longleftrightarrow> asn_form asn)
   \<and> (\<not> asn_form asn \<longrightarrow>
        syncASN g env asn s = Some (Inl (Error ''Invalid ASN format''), s)
        \<and> fetch g env (Some asn) s =
            Some (Inr \<lparr>res_status = 400,
                       res_text = ''Missing or invalid ?asn=ASxxxx parameter''\<rparr>, s))
   \<and> fetch g env None s =
        Some (Inr \<lparr>res_status = 400, res_text = ''Missing or invalid ?asn=ASxxxx parameter''\<rparr>, s)
   \<and> (\<forall>r s'. syncASN g env asn s = Some (r, s') \<and> s' \<noteq> s \<longrightarrow> asn_form asn)
   \<and> (\<forall>r s'. fetch g env (Some asn) s = Some (r, s') \<and> s' \<noteq> s \<longrightarrow> asn_form asn)"
proof -
  have a: "regex_test asn_regex asn \<longleftrightarrow> asn_form asn" by (rule regex_test_asn)
  have b: "\<not> asn_form asn \<longrightarrow>
        syncASN g env asn s = Some (Inl (Error ''Invalid ASN format''), s)
        \<and> fetch g env (Some asn) s =
            Some (Inr \<lparr>res_status = 400,
                       res_text = ''Missing or invalid ?asn=ASxxxx parameter''\<rparr>, s)"
    by (simp add: syncASN_def fetch_def a try_catch_def str_def)
  have c: "fetch g env None s =
        Some (Inr \<lparr>res_status = 400, res_text = ''Missing or invalid ?asn=ASxxxx parameter''\<rparr>, s)"
    by (simp add: fetch_def try_catch_def falsy_def)
  from b have d: "\<forall>r s'. syncASN g env asn s = Some (r, s') \<and> s' \<noteq> s \<longrightarrow> asn_form asn"
    by auto
  from b have e: "\<forall>r s'. fetch g env (Some asn) s = Some (r, s') \<and> s' \<noteq> s \<longrightarrow> asn_form asn"
    by auto
  from a b c d e show ?thesis by (intro conjI)
qed

theorem syncASN_asn_gate_witness:
  "\<not> asn_form ''AS1; DROP TABLE sync_state''
   \<and> syncASN (sim_globals []) sim_env ''AS1; DROP TABLE sync_state''
        (\<lparr>sim_replies = [], sim_rows = [''1.1.1.0/24''], sim_table = None\<rparr>, [])
      = Some (Inl (Error ''Invalid ASN format''),
              (\<lparr>sim_replies = [], sim_rows = [''1.1.1.0/24''], sim_table = None\<rparr>, []))
   \<and> asn_form ''AS14593''"
proof -
  have n: "\<not> regex_test asn_regex ''AS1; DROP TABLE sync_state''" by code_simp
  have y: "regex_test asn_regex ''AS14593''" by code_simp
  note gate = syncASN_asn_gate [of "''AS1; DROP TABLE sync_state''" "sim_globals []" sim_env
      "(\<lparr>sim_replies = [], sim_rows = [''1.1.1.0/24''], sim_table = None\<rparr>, [])"]
  from gate n have bad: "\<not> asn_form ''AS1; DROP TABLE sync_state''" by blast
  with gate have "syncASN (sim_globals []) sim_env ''AS1; DROP TABLE sync_state''
        (\<lparr>sim_replies = [], sim_rows = [''1.1.1.0/24''], sim_table = None\<rparr>, [])
      = Some (Inl (Error ''Invalid ASN format''),
              (\<lparr>sim_replies = [], sim_rows = [''1.1.1.0/24''], sim_table = None\<rparr>, []))"
    by blast
  moreover from y have "asn_form ''AS14593''"
    using syncASN_asn_gate [of "''AS14593''" "sim_globals []" sim_env
      "(\<lparr>sim_replies = [], sim_rows = [], sim_table = None\<rparr>, [])"] by blast
  ultimately show ?thesis using bad by blast
qed

subsection \<open>C6: no active prefixes\<close>

lemma fetchDesiredPrefixes_zero_rows:
  assumes "fst (d1_all db (desired_query table) (fst s)) = Inr r0"
    and "all_success r0" and "all_results r0 = Some []"
  shows "fetchDesiredPrefixes db table s =
     Some (Inl (Error (''Failed to fetch desired prefixes from '' @ table @ '': ''
                  @ fst (zero_rows_diagnosis db table
                           (snd (d1_all db (desired_query table) (fst s)))))),
           (fst (snd (zero_rows_diagnosis db table
                        (snd (d1_all db (desired_query table) (fst s))))),
            snd s @ D1_all (desired_query table)
              # snd (snd (zero_rows_diagnosis db table
                            (snd (d1_all db (desired_query table) (fst s)))))))"
proof -
  let ?w = "snd (d1_all db (desired_query table) (fst s))"
  let ?s1 = "(?w, snd s @ [D1_all (desired_query table)])"
  let ?D = "await (stmt_first db (table_check table)) (\<lambda>tableCheck.
              if tableCheck = None then
                reject (Error (''Table '' @ table @ '' does not exist in the database''))
              else
                await (stmt_all db (sample_query table)) (\<lambda>sample.
                await (stmt_all db (active_query table)) (\<lambda>activeCheck.
                reject (Error (''No prefixes found in '' @ table @ '' with active = 1'')))))"
  have diag: "?D ?s1 = Some (Inl (Error (fst (zero_rows_diagnosis db table ?w))),
                 (fst (snd (zero_rows_diagnosis db table ?w)),
                  snd ?s1 @ snd (snd (zero_rows_diagnosis db table ?w))))"
  proof (cases "d1_first db (table_check table) ?w")
    case (Pair r1 w1)
    show ?thesis
    proof (cases r1)
      case (Inl m)
      with Pair show ?thesis
        by (simp add: await_def stmt_first_apply zero_rows_diagnosis_def)
    next
      case (Inr tableCheck)
      show ?thesis
      proof (cases tableCheck)
        case None
        with Pair Inr show ?thesis
          by (simp add: await_def stmt_first_apply zero_rows_diagnosis_def)
      next
        case (Some row)
        show ?thesis
        proof (cases "d1_all db (sample_query table) w1")
          case sample: (Pair r2 w2)
          show ?thesis
          proof (cases r2)
            case (Inl m)
            with Pair Inr Some sample show ?thesis
              by (simp add: await_def stmt_first_apply stmt_all_apply zero_rows_diagnosis_def)
          next
            case r2: (Inr x)
            show ?thesis
            proof (cases "d1_all db (active_query table) w2")
              case active: (Pair r3 w3)
              with Pair Inr Some sample r2 show ?thesis
                by (cases r3)
                   (simp_all add: await_def stmt_first_apply stmt_all_apply
                      zero_rows_diagnosis_def)
            qed
          qed
        qed
      qed
    qed
  qed
  from assms(1) have all: "stmt_all db (desired_query table) s = Some (Inr r0, ?s1)"
    by (simp add: stmt_all_apply)
  have body: "await (stmt_all db (desired_query table)) (\<lambda>r.
          if \<not> all_success r then
            reject (Error (''Query failed: '' @
              (if falsy (all_error r) then ''unknown error'' else str (all_error r))))
          else case all_results r of
            None \<Rightarrow> reject (Error ''No results returned from query'')
          | Some results \<Rightarrow>
              if length results = 0 then ?D
              else resolve (map row_prefix results)) s = ?D ?s1"
    using assms(2,3) by (simp add: await_Inr [where m = "stmt_all db (desired_query table)", OF all])
  show ?thesis
    unfolding fetchDesiredPrefixes_def
    unfolding desired_query_def [symmetric] table_check_def [symmetric]
      sample_query_def [symmetric] active_query_def [symmetric]
    unfolding try_catch_def body diag
    by simp
qed

lemma zero_rows_diagnosis_reads:
  "list_all is_local_read (snd (snd (zero_rows_diagnosis db table w)))
   \<and> D1_first (table_check table) \<in> set (snd (snd (zero_rows_diagnosis db table w)))"
  by (simp add: zero_rows_diagnosis_def split: prod.splits sum.splits option.splits)

text \<open>
  C6. A run whose query for the desired prefixes succeeds with no rows: \<^verbatim>\<open>syncASN\<close>
  rejects with the error \<open>Failed to fetch desired prefixes from\<close> the table, after the
  table check and whatever diagnostic queries follow it. The run has made store reads
  only: no request to the remote API (neither the GET nor any PATCH) and no write. When
  the three diagnostic queries answer (and the table check finds the table), the cause
  named is \<open>No prefixes found in\<close> the table \<open>with active = 1\<close>; when the table check
  finds nothing it is that the table does not exist, and when a diagnostic query throws
  it is that query's message.
\<close>

theorem syncASN_zero_rows_fails:
  assumes "regex_test asn_regex asn" and "DB env = Some db"
    and "\<not> (falsy (ACCOUNT_ID env) \<or> falsy (LIST_ID env) \<or> falsy (API_EMAIL env)
             \<or> falsy (API_KEY env))"
    and "fst (d1_first db (last_run_query asn) (fst s)) = Inr lastRunRow"
    and "w1 = snd (d1_first db (last_run_query asn) (fst s))"
    and "fst (d1_all db (desired_query asn) w1) = Inr r0"
    and "all_success r0" and "all_results r0 = Some []"
    and "w2 = snd (d1_all db (desired_query asn) w1)"
  shows "\<exists>cause w' diag.
       zero_rows_diagnosis db asn w2 = (cause, w', diag)
     \<and> syncASN g env asn s =
         Some (Inl (Error (''Failed to fetch desired prefixes from '' @ asn @ '': '' @ cause)),
               (w', snd s @ D1_first (last_run_query asn) # D1_all (desired_query asn) # diag))
     \<and> list_all is_local_read (D1_first (last_run_query asn) # D1_all (desired_query asn) # diag)
     \<and> list_all (\<lambda>ev. \<not> is_fetch ev \<and> \<not> is_local_write ev)
          (D1_first (last_run_query asn) # D1_all (desired_query asn) # diag)
     \<and> D1_first (table_check asn) \<in> set diag
     \<and> ((\<exists>row w. d1_first db (table_check asn) w2 = (Inr (Some row), w)
            \<and> (\<exists>sample wa. d1_all db (sample_query asn) w = (Inr sample, wa)
                 \<and> (\<exists>active wb. d1_all db (active_query asn) wa = (Inr active, wb))))
          \<longrightarrow> cause = ''No prefixes found in '' @ asn @ '' with active = 1'')"
proof -
  obtain cause w' diag where z: "zero_rows_diagnosis db asn w2 = (cause, w', diag)"
    by (cases "zero_rows_diagnosis db asn w2") blast
  let ?s1 = "(w1, snd s @ [D1_first (last_run_query asn)])"
  from assms(4,5) have first: "stmt_first db (last_run_query asn) s = Some (Inr lastRunRow, ?s1)"
    by (simp add: stmt_first_apply)
  from assms(6) have q: "fst (d1_all db (desired_query asn) (fst ?s1)) = Inr r0" by simp
  from fetchDesiredPrefixes_zero_rows [OF q assms(7,8)] z assms(9)
  have des: "fetchDesiredPrefixes db asn ?s1 =
      Some (Inl (Error (''Failed to fetch desired prefixes from '' @ asn @ '': '' @ cause)),
            (w', snd s @ D1_first (last_run_query asn) # D1_all (desired_query asn) # diag))"
    by simp
  have "load g env db asn s =
      Some (Inl (Error (''Failed to fetch desired prefixes from '' @ asn @ '': '' @ cause)),
            (w', snd s @ D1_first (last_run_query asn) # D1_all (desired_query asn) # diag))"
    unfolding load_def by (simp add: await_def first des)
  then have run: "syncASN g env asn s =
      Some (Inl (Error (''Failed to fetch desired prefixes from '' @ asn @ '': '' @ cause)),
            (w', snd s @ D1_first (last_run_query asn) # D1_all (desired_query asn) # diag))"
    unfolding syncASN_load [OF assms(1,2,3)] by (simp add: await_def)
  from zero_rows_diagnosis_reads [of db asn w2] z
  have reads: "list_all is_local_read diag" and chk: "D1_first (table_check asn) \<in> set diag"
    by simp_all
  then have r1: "list_all is_local_read
      (D1_first (last_run_query asn) # D1_all (desired_query asn) # diag)" by simp
  have r2: "list_all (\<lambda>ev. \<not> is_fetch ev \<and> \<not> is_local_write ev)
      (D1_first (last_run_query asn) # D1_all (desired_query asn) # diag)"
    using reads local_read_only by (auto simp: list_all_iff)
  have c: "(\<exists>row w. d1_first db (table_check asn) w2 = (Inr (Some row), w)
            \<and> (\<exists>sample wa. d1_all db (sample_query asn) w = (Inr sample, wa)
                 \<and> (\<exists>active wb. d1_all db (active_query asn) wa = (Inr active, wb))))
          \<longrightarrow> cause = ''No prefixes found in '' @ asn @ '' with active = 1''"
    using z by (auto simp: zero_rows_diagnosis_def)
  from z run r1 r2 chk c show ?thesis by blast
qed

theorem syncASN_zero_rows_fails_witness:
  "syncASN (sim_globals []) sim_env ''AS1''
     (\<lparr>sim_replies = [], sim_rows = [], sim_table = Some [(''name'', ''AS1'')]\<rparr>, [])
   = Some (Inl (Error (''Failed to fetch desired prefixes from AS1: ''
                  @ ''No prefixes found in AS1 with active = 1'')),
           (\<lparr>sim_replies = [], sim_rows = [], sim_table = Some [(''name'', ''AS1'')]\<rparr>,
            [D1_first (last_run_query ''AS1''), D1_all (desired_query ''AS1''),
             D1_first (table_check ''AS1''), D1_all (sample_query ''AS1''),
             D1_all (active_query ''AS1'')]))"
proof -
  let ?w = "\<lparr>sim_replies = [], sim_rows = [], sim_table = Some [(''name'', ''AS1'')]\<rparr>"
  let ?r0 = "\<lparr>all_results = Some [], all_success = True, all_error = None\<rparr>"
  have a1: "regex_test asn_regex ''AS1''" by code_simp
  have a2: "DB sim_env = Some sim_d1" by (simp add: sim_env_def)
  have a3: "\<not> (falsy (ACCOUNT_ID sim_env) \<or> falsy (LIST_ID sim_env) \<or> falsy (API_EMAIL sim_env)
             \<or> falsy (API_KEY sim_env))"
    by (simp add: sim_env_def falsy_def)
  have a4: "fst (d1_first sim_d1 (last_run_query ''AS1'') (fst (?w, []::event list)))
            = Inr (Some [(''name'', ''AS1'')])"
    by (simp add: sim_d1_def)
  have a5: "?w = snd (d1_first sim_d1 (last_run_query ''AS1'') (fst (?w, []::event list)))"
    by (simp add: sim_d1_def)
  have a6: "fst (d1_all sim_d1 (desired_query ''AS1'') ?w) = Inr ?r0"
    by (simp add: sim_d1_def)
  have a7: "all_success ?r0" and a8: "all_results ?r0 = Some []" by simp_all
  have a9: "?w = snd (d1_all sim_d1 (desired_query ''AS1'') ?w)"
    by (simp add: sim_d1_def)
  have z: "zero_rows_diagnosis sim_d1 ''AS1'' ?w =
     (''No prefixes found in AS1 with active = 1'', ?w,
      [D1_first (table_check ''AS1''), D1_all (sample_query ''AS1''),
       D1_all (active_query ''AS1'')])"
    by (simp add: zero_rows_diagnosis_def sim_d1_def)
  from syncASN_zero_rows_fails [OF a1 a2 a3 a4 a5 a6 a7 a8 a9, of "sim_globals []"]
  obtain cause w' diag where "zero_rows_diagnosis sim_d1 ''AS1'' ?w = (cause, w', diag)"
    and "syncASN (sim_globals []) sim_env ''AS1'' (?w, []) =
         Some (Inl (Error (''Failed to fetch desired prefixes from '' @ ''AS1'' @ '': '' @ cause)),
               (w', snd (?w, []::event list) @ D1_first (last_run_query ''AS1'')
                  # D1_all (desired_query ''AS1'') # diag))"
    by blast
  with z show ?thesis by simp
qed

subsection \<open>C8: local state is written after the remote updates\<close>

lemma warn_skipped_quiet:
  "list_all (\<lambda>ev. \<not> is_local_write ev) (warn_skipped desired)
   \<and> list_all (\<lambda>ev. \<not> is_patch ev) (warn_skipped desired)
   \<and> no_failed_patch g (warn_skipped desired)"
  by (simp add: warn_skipped_def no_failed_patch_def)

lemma not_write_if_patch_or_console:
  "list_all (\<lambda>ev. is_patch ev \<or> is_console_or_timer ev) evs \<Longrightarrow>
   list_all (\<lambda>ev. \<not> is_local_write ev) evs"
  using patch_or_console_only by (auto simp: list_all_iff)

lemma reconcile_phases:
  assumes run: "reconcile g env db asn desired existing s = Some (r, s')"
  shows "\<exists>pre post. snd s' = snd s @ pre @ post
       \<and> list_all (\<lambda>ev. \<not> is_local_write ev) pre \<and> list_all is_local_write post
       \<and> (post \<noteq> [] \<longrightarrow> no_failed_patch g pre
            \<and> (\<exists>s2 e1 e2. updateGatewayListBatched g env
                     (fst (diff_stage (map JStr (valid_desired desired)) existing))
                     (snd (diff_stage (map JStr (valid_desired desired)) existing)) 50
                     (fst s, snd s @ warn_skipped desired) = Some (Inr (), s2)
                 \<and> snd s2 = snd s @ warn_skipped desired @ e1
                 \<and> pre = warn_skipped desired @ e1 @ e2
                 \<and> all_applied g env (fst (diff_stage (map JStr (valid_desired desired)) existing))
                      (snd (diff_stage (map JStr (valid_desired desired)) existing)) e1))"
proof -
  let ?A = "fst (diff_stage (map JStr (valid_desired desired)) existing)"
  let ?R = "snd (diff_stage (map JStr (valid_desired desired)) existing)"
  let ?w = "warn_skipped desired"
  let ?s0 = "(fst s, snd s @ ?w)"
  let ?probe = "if ?A \<noteq> [] then testGatewayListUpdate g env (?A ! 0) else resolve ()"
  let ?persist = "await (updateSyncedPrefixes db asn (valid_desired desired))
                    (\<lambda>_. recordSyncTime g db asn)"
  note quiet = warn_skipped_quiet [of desired g]
  have pos: "0 < (50::nat)" by simp
  show ?thesis
  proof (cases "valid_desired desired = [] \<and> desired \<noteq> []")
    case True
    with run have "snd s' = snd s @ ?w @ []"
      by (auto simp: reconcile_unfold)
    with quiet show ?thesis by (intro exI [of _ ?w] exI [of _ "[]"]) simp
  next
    case False
    with run have "await (updateGatewayListBatched g env ?A ?R 50)
                     (\<lambda>_. await ?probe (\<lambda>_. ?persist)) ?s0 = Some (r, s')"
      by (simp add: reconcile_unfold)
    then show ?thesis
    proof (cases rule: await_SomeE)
      case (rejected e)
      from batched_settled [OF pos rejected(1)] obtain evsA evsR
        where tr: "snd s' = snd ?s0 @ evsA @ evsR"
          and q: "list_all (\<lambda>ev. is_patch ev \<or> is_console_or_timer ev) (evsA @ evsR)"
        by blast
      from q have "list_all (\<lambda>ev. \<not> is_local_write ev) (evsA @ evsR)"
        by (rule not_write_if_patch_or_console)
      with tr quiet show ?thesis
        by (intro exI [of _ "?w @ evsA @ evsR"] exI [of _ "[]"]) simp
    next
      case (resolved x s2)
      from batched_settled [OF pos resolved(1)] obtain evsA evsR
        where tr2: "snd s2 = snd ?s0 @ evsA @ evsR"
          and q2: "list_all (\<lambda>ev. is_patch ev \<or> is_console_or_timer ev) (evsA @ evsR)"
          and ap: "\<forall>pl \<in> append_payload ` set (chunks 50 ?A) \<union> remove_payload ` set (chunks 50 ?R).
                     \<exists>rep. accepted g rep \<and> Fetch (patch_request env pl) rep \<in> set (evsA @ evsR)"
          and nf: "no_failed_patch g (evsA @ evsR)"
        by auto
      define e1 where "e1 = evsA @ evsR"
      from tr2 have tr2': "snd s2 = snd s @ ?w @ e1" by (simp add: e1_def)
      from q2 have nw1: "list_all (\<lambda>ev. \<not> is_local_write ev) e1"
        unfolding e1_def by (rule not_write_if_patch_or_console)
      from ap have applied: "all_applied g env ?A ?R e1"
        by (simp add: all_applied_def e1_def)
      from nf have nf1: "no_failed_patch g e1" by (simp add: e1_def)
      from resolved(1) have b: "updateGatewayListBatched g env ?A ?R 50 ?s0 = Some (Inr (), s2)"
        by simp
      from resolved(2) show ?thesis
      proof (cases rule: await_SomeE)
        case (rejected e)
        have "\<exists>e2. snd s' = snd s2 @ e2 \<and> list_all (\<lambda>ev. \<not> is_local_write ev) e2"
        proof (cases "?A \<noteq> []")
          case True
          with rejected(1) have "testGatewayListUpdate g env (?A ! 0) s2 = Some (Inl e, s')"
            by simp
          from testGatewayListUpdate_settled [OF this] show ?thesis
            using not_write_if_patch_or_console by blast
        next
          case False
          with rejected(1) show ?thesis by simp
        qed
        then obtain e2 where "snd s' = snd s2 @ e2" "list_all (\<lambda>ev. \<not> is_local_write ev) e2"
          by blast
        with tr2' nw1 quiet show ?thesis
          by (intro exI [of _ "?w @ e1 @ e2"] exI [of _ "[]"]) simp
      next
        case (resolved y s3)
        have "\<exists>e2. snd s3 = snd s2 @ e2 \<and> list_all (\<lambda>ev. \<not> is_local_write ev) e2
                \<and> no_failed_patch g e2"
        proof (cases "?A \<noteq> []")
          case True
          with resolved(1) have "testGatewayListUpdate g env (?A ! 0) s2 = Some (Inr (), s3)"
            by simp
          from testGatewayListUpdate_settled [OF this] show ?thesis
            using not_write_if_patch_or_console by blast
        next
          case False
          with resolved(1) have "snd s3 = snd s2 @ []" by simp
          then show ?thesis by (intro exI [of _ "[]"]) simp
        qed
        then obtain e2 where e2: "snd s3 = snd s2 @ e2"
            "list_all (\<lambda>ev. \<not> is_local_write ev) e2" "no_failed_patch g e2"
          by blast
        from emitsD [OF persist_emits resolved(2)] obtain post
          where post: "snd s' = snd s3 @ post" "list_all is_local_write post" by blast
        let ?pre = "?w @ e1 @ e2"
        from tr2' e2(1) post(1) have t: "snd s' = snd s @ ?pre @ post" by simp
        from quiet nw1 e2(2) have nw: "list_all (\<lambda>ev. \<not> is_local_write ev) ?pre" by simp
        from quiet nf1 e2(3) have nfp: "no_failed_patch g ?pre" by simp
        from b tr2' applied
        have ex: "\<exists>s2 e1' e2'. updateGatewayListBatched g env ?A ?R 50 ?s0 = Some (Inr (), s2)
                 \<and> snd s2 = snd s @ ?w @ e1' \<and> ?pre = ?w @ e1' @ e2'
                 \<and> all_applied g env ?A ?R e1'"
          by blast
        from t nw post(2) nfp ex show ?thesis
          by (intro exI [of _ ?pre] exI [of _ post]) simp
      qed
    qed
  qed
qed

text \<open>
  C8. Every run of \<^verbatim>\<open>syncASN\<close> that settles has a trace in two parts: a first part
  with no write to local state, and after it only writes to local state (the delete, the
  insert batches, the timestamp). When there is any write, the batched updater had
  resolved before it: every chunk of \<open>toAdd\<close> and of \<open>toRemove\<close> got a reply that was
  taken as success, and no PATCH reply of the run was a failure. So a run in which a PATCH
  request fails writes nothing to local state.
\<close>

theorem syncASN_local_writes_after_remote_success:
  assumes "syncASN g env asn s = Some (r, s')"
  shows "\<exists>pre post. snd s' = snd s @ pre @ post
     \<and> list_all (\<lambda>ev. \<not> is_local_write ev) pre \<and> list_all is_local_write post
     \<and> (post \<noteq> [] \<longrightarrow> no_failed_patch g pre
          \<and> (\<exists>db desired existing s0 s2 e0 e1 e2.
                DB env = Some db
              \<and> load g env db asn s = Some (Inr (desired, existing), s0)
              \<and> snd s0 = snd s @ e0
              \<and> updateGatewayListBatched g env
                    (fst (diff_stage (map JStr (valid_desired desired)) existing))
                    (snd (diff_stage (map JStr (valid_desired desired)) existing)) 50
                    (fst s0, snd s0 @ warn_skipped desired) = Some (Inr (), s2)
              \<and> snd s2 = snd s0 @ warn_skipped desired @ e1
              \<and> pre = e0 @ warn_skipped desired @ e1 @ e2
              \<and> all_applied g env (fst (diff_stage (map JStr (valid_desired desired)) existing))
                   (snd (diff_stage (map JStr (valid_desired desired)) existing)) e1))
     \<and> ((\<exists>req rep. Fetch req rep \<in> set pre \<and> req_method req = ''PATCH''
            \<and> \<not> accepted g rep \<and> \<not> rate_limited rep) \<longrightarrow> post = [])"
proof -
  have core: "\<exists>pre post. snd s' = snd s @ pre @ post
     \<and> list_all (\<lambda>ev. \<not> is_local_write ev) pre \<and> list_all is_local_write post
     \<and> (post \<noteq> [] \<longrightarrow> no_failed_patch g pre
          \<and> (\<exists>db desired existing s0 s2 e0 e1 e2.
                DB env = Some db
              \<and> load g env db asn s = Some (Inr (desired, existing), s0)
              \<and> snd s0 = snd s @ e0
              \<and> updateGatewayListBatched g env
                    (fst (diff_stage (map JStr (valid_desired desired)) existing))
                    (snd (diff_stage (map JStr (valid_desired desired)) existing)) 50
                    (fst s0, snd s0 @ warn_skipped desired) = Some (Inr (), s2)
              \<and> snd s2 = snd s0 @ warn_skipped desired @ e1
              \<and> pre = e0 @ warn_skipped desired @ e1 @ e2
              \<and> all_applied g env (fst (diff_stage (map JStr (valid_desired desired)) existing))
                   (snd (diff_stage (map JStr (valid_desired desired)) existing)) e1))"
  proof (cases "\<not> regex_test asn_regex asn \<or> DB env = None
     \<or> falsy (ACCOUNT_ID env) \<or> falsy (LIST_ID env) \<or> falsy (API_EMAIL env)
     \<or> falsy (API_KEY env)")
    case True
    from syncASN_early [OF True, of g s] assms have "snd s' = snd s @ [] @ []" by auto
    then show ?thesis by (intro exI [of _ "[]"]) simp
  next
    case False
    then obtain db where db: "DB env = Some db" and re: "regex_test asn_regex asn"
      and cr: "\<not> (falsy (ACCOUNT_ID env) \<or> falsy (LIST_ID env) \<or> falsy (API_EMAIL env)
             \<or> falsy (API_KEY env))"
      by auto
    from assms have "await (load g env db asn)
           (\<lambda>(desired, existing). reconcile g env db asn desired existing) s = Some (r, s')"
      by (simp only: syncASN_load [OF re db cr])
    then show ?thesis
    proof (cases rule: await_SomeE)
      case (rejected e)
      from emitsD [OF load_emits rejected(1)] obtain evs
        where "snd s' = snd s @ evs" "list_all (\<lambda>ev. \<not> is_local_write ev \<and> \<not> is_patch ev) evs"
        by blast
      then have "snd s' = snd s @ evs @ []" "list_all (\<lambda>ev. \<not> is_local_write ev) evs"
        by (simp_all add: list_all_iff)
      then show ?thesis by (intro exI [of _ evs] exI [of _ "[]"]) simp
    next
      case (resolved x s0)
      obtain desired existing where x: "x = (desired, existing)" by (cases x)
      from emitsD [OF load_emits resolved(1)] obtain e0
        where e0: "snd s0 = snd s @ e0"
          "list_all (\<lambda>ev. \<not> is_local_write ev \<and> \<not> is_patch ev) e0"
        by blast
      then have nw0: "list_all (\<lambda>ev. \<not> is_local_write ev) e0"
        and np0: "list_all (\<lambda>ev. \<not> is_patch ev) e0"
        by (simp_all add: list_all_iff)
      from np0 have nf0: "no_failed_patch g e0" by (rule no_failed_patch_other)
      from resolved(2) x have "reconcile g env db asn desired existing s0 = Some (r, s')"
        by simp
      from reconcile_phases [OF this] obtain pre post
        where ph: "snd s' = snd s0 @ pre @ post"
          "list_all (\<lambda>ev. \<not> is_local_write ev) pre" "list_all is_local_write post"
          and after: "post \<noteq> [] \<longrightarrow> no_failed_patch g pre
            \<and> (\<exists>s2 e1 e2. updateGatewayListBatched g env
                     (fst (diff_stage (map JStr (valid_desired desired)) existing))
                     (snd (diff_stage (map JStr (valid_desired desired)) existing)) 50
                     (fst s0, snd s0 @ warn_skipped desired) = Some (Inr (), s2)
                 \<and> snd s2 = snd s0 @ warn_skipped desired @ e1
                 \<and> pre = warn_skipped desired @ e1 @ e2
                 \<and> all_applied g env (fst (diff_stage (map JStr (valid_desired desired)) existing))
                      (snd (diff_stage (map JStr (valid_desired desired)) existing)) e1)"
        by blast
      from ph e0(1) have t: "snd s' = snd s @ (e0 @ pre) @ post" by simp
      from nw0 ph(2) have nw: "list_all (\<lambda>ev. \<not> is_local_write ev) (e0 @ pre)" by simp
      have imp: "post \<noteq> [] \<longrightarrow> no_failed_patch g (e0 @ pre)
          \<and> (\<exists>db desired existing s0 s2 e0' e1 e2.
                DB env = Some db
              \<and> load g env db asn s = Some (Inr (desired, existing), s0)
              \<and> snd s0 = snd s @ e0'
              \<and> updateGatewayListBatched g env
                    (fst (diff_stage (map JStr (valid_desired desired)) existing))
                    (snd (diff_stage (map JStr (valid_desired desired)) existing)) 50
                    (fst s0, snd s0 @ warn_skipped desired) = Some (Inr (), s2)
              \<and> snd s2 = snd s0 @ warn_skipped desired @ e1
              \<and> e0 @ pre = e0' @ warn_skipped desired @ e1 @ e2
              \<and> all_applied g env (fst (diff_stage (map JStr (valid_desired desired)) existing))
                   (snd (diff_stage (map JStr (valid_desired desired)) existing)) e1)"
      proof
        assume "post \<noteq> []"
        with after obtain s2 e1 e2 where nfp: "no_failed_patch g pre"
          and b: "updateGatewayListBatched g env
                     (fst (diff_stage (map JStr (valid_desired desired)) existing))
                     (snd (diff_stage (map JStr (valid_desired desired)) existing)) 50
                     (fst s0, snd s0 @ warn_skipped desired) = Some (Inr (), s2)"
          and t2: "snd s2 = snd s0 @ warn_skipped desired @ e1"
          and p: "pre = warn_skipped desired @ e1 @ e2"
          and ap: "all_applied g env (fst (diff_stage (map JStr (valid_desired desired)) existing))
                      (snd (diff_stage (map JStr (valid_desired desired)) existing)) e1"
          by blast
        from resolved(1) x have l: "load g env db asn s = Some (Inr (desired, existing), s0)"
          by simp
        from p have p': "e0 @ pre = e0 @ warn_skipped desired @ e1 @ e2" by simp
        from nf0 nfp have "no_failed_patch g (e0 @ pre)" by simp
        moreover from db l e0(1) b t2 p' ap
        have "\<exists>db desired existing s0 s2 e0' e1 e2.
                DB env = Some db
              \<and> load g env db asn s = Some (Inr (desired, existing), s0)
              \<and> snd s0 = snd s @ e0'
              \<and> updateGatewayListBatched g env
                    (fst (diff_stage (map JStr (valid_desired desired)) existing))
                    (snd (diff_stage (map JStr (valid_desired desired)) existing)) 50
                    (fst s0, snd s0 @ warn_skipped desired) = Some (Inr (), s2)
              \<and> snd s2 = snd s0 @ warn_skipped desired @ e1
              \<and> e0 @ pre = e0' @ warn_skipped desired @ e1 @ e2
              \<and> all_applied g env (fst (diff_stage (map JStr (valid_desired desired)) existing))
                   (snd (diff_stage (map JStr (valid_desired desired)) existing)) e1"
          by blast
        ultimately show "no_failed_patch g (e0 @ pre)
          \<and> (\<exists>db desired existing s0 s2 e0' e1 e2.
                DB env = Some db
              \<and> load g env db asn s = Some (Inr (desired, existing), s0)
              \<and> snd s0 = snd s @ e0'
              \<and> updateGatewayListBatched g env
                    (fst (diff_stage (map JStr (valid_desired desired)) existing))
                    (snd (diff_stage (map JStr (valid_desired desired)) existing)) 50
                    (fst s0, snd s0 @ warn_skipped desired) = Some (Inr (), s2)
              \<and> snd s2 = snd s0 @ warn_skipped desired @ e1
              \<and> e0 @ pre = e0' @ warn_skipped desired @ e1 @ e2
              \<and> all_applied g env (fst (diff_stage (map JStr (valid_desired desired)) existing))
                   (snd (diff_stage (map JStr (valid_desired desired)) existing)) e1)"
          by (rule conjI)
      qed
      from t nw ph(3) imp show ?thesis
        by (intro exI [of _ "e0 @ pre"] exI [of _ post] conjI)
    qed
  qed
  then obtain pre post where a: "snd s' = snd s @ pre @ post"
     "list_all (\<lambda>ev. \<not> is_local_write ev) pre" "list_all is_local_write post"
     and b: "post \<noteq> [] \<longrightarrow> no_failed_patch g pre
          \<and> (\<exists>db desired existing s0 s2 e0 e1 e2.
                DB env = Some db
              \<and> load g env db asn s = Some (Inr (desired, existing), s0)
              \<and> snd s0 = snd s @ e0
              \<and> updateGatewayListBatched g env
                    (fst (diff_stage (map JStr (valid_desired desired)) existing))
                    (snd (diff_stage (map JStr (valid_desired desired)) existing)) 50
                    (fst s0, snd s0 @ warn_skipped desired) = Some (Inr (), s2)
              \<and> snd s2 = snd s0 @ warn_skipped desired @ e1
              \<and> pre = e0 @ warn_skipped desired @ e1 @ e2
              \<and> all_applied g env (fst (diff_stage (map JStr (valid_desired desired)) existing))
                   (snd (diff_stage (map JStr (valid_desired desired)) existing)) e1)"
    by blast
  from b have c: "(\<exists>req rep. Fetch req rep \<in> set pre \<and> req_method req = ''PATCH''
            \<and> \<not> accepted g rep \<and> \<not> rate_limited rep) \<longrightarrow> post = []"
    unfolding no_failed_patch_def by blast
  from a b c show ?thesis by (intro exI [of _ pre] exI [of _ post] conjI)
qed

theorem syncASN_local_writes_after_remote_success_witness:
  "\<exists>pre post. first_run_trace = pre @ post
     \<and> list_all (\<lambda>ev. \<not> is_local_write ev) pre \<and> list_all is_local_write post
     \<and> post \<noteq> [] \<and> no_failed_patch two_runs_globals pre"
proof -
  from syncASN_local_writes_after_remote_success [OF sim_first_run]
  obtain pre post where tr: "first_run_trace = pre @ post"
    and pre: "list_all (\<lambda>ev. \<not> is_local_write ev) pre"
    and post: "list_all is_local_write post"
    and ok: "post \<noteq> [] \<longrightarrow> no_failed_patch two_runs_globals pre"
    by auto
  have "\<not> list_all (\<lambda>ev. \<not> is_local_write ev) first_run_trace"
    by (simp add: first_run_trace_def)
  with tr pre have "post \<noteq> []" by auto
  with tr pre post ok show ?thesis by blast
qed

subsection \<open>C9: a second run with nothing changed\<close>

lemma batched_nothing: "updateGatewayListBatched g env [] [] 50 s = Some (Inr (), s)"
  by (simp add: updateGatewayListBatched_chunks await_def resolve_def)

lemma no_patch_payloads:
  "list_all (\<lambda>ev. \<not> is_patch ev) evs \<Longrightarrow> patch_payloads evs = []"
  by (induction evs rule: patch_payloads.induct) simp_all

lemma local_write_not_patch: "is_local_write ev \<Longrightarrow> \<not> is_patch ev"
  by (cases ev) simp_all

lemma diff_stage_applied:
  assumes "set existing' =
             (set existing \<union> set (fst (diff_stage v existing))) - set (snd (diff_stage v existing))"
  shows "diff_stage v existing' = ([], [])"
proof -
  from assms have "set existing' = set v" by (auto simp: diff_stage_eq)
  then show ?thesis by (simp add: diff_stage_eq)
qed

lemma reconcile_idle:
  assumes "\<not> (valid_desired desired = [] \<and> desired \<noteq> [])"
    and "diff_stage (map JStr (valid_desired desired)) existing = ([], [])"
  shows "reconcile g env db asn desired existing s =
           await (updateSyncedPrefixes db asn (valid_desired desired))
             (\<lambda>_. recordSyncTime g db asn) (fst s, snd s @ warn_skipped desired)"
proof -
  from assms(1)
  have "reconcile g env db asn desired existing s =
        await (updateGatewayListBatched g env
                 (fst (diff_stage (map JStr (valid_desired desired)) existing))
                 (snd (diff_stage (map JStr (valid_desired desired)) existing)) 50) (\<lambda>_.
        await (if fst (diff_stage (map JStr (valid_desired desired)) existing) \<noteq> []
               then testGatewayListUpdate g env
                      (fst (diff_stage (map JStr (valid_desired desired)) existing) ! 0)
               else resolve ()) (\<lambda>_.
        await (updateSyncedPrefixes db asn (valid_desired desired)) (\<lambda>_.
        recordSyncTime g db asn)))
          (fst s, snd s @ warn_skipped desired)"
    by (simp only: reconcile_unfold if_False)
  then show ?thesis
    by (simp add: assms(2) batched_nothing await_def resolve_def)
qed

text \<open>
  C9. Let a first run of \<^verbatim>\<open>syncASN\<close> resolve, from loads that gave \<open>desired\<close> and
  \<open>existing\<close>. Let the loads of the next run give the same desired prefixes, and a remote
  list that holds what the first run asked for: the values of the old list and of \<open>toAdd\<close>
  without those of \<open>toRemove\<close>. Then the diff of the second run is \<open>toAdd = toRemove = []\<close>,
  the second run goes from its loads straight to the local writes, it settles, and its
  trace has no PATCH request: no batch and no probe.
\<close>

theorem syncASN_second_run_idle:
  assumes first: "syncASN g env asn s = Some (Inr (), s1)"
    and db: "DB env = Some db"
    and load1: "load g env db asn s = Some (Inr (desired, existing), s0)"
    and load2: "load g env db asn s1 = Some (Inr (desired', existing'), s0')"
    and same: "desired' = desired"
    and faithful: "set existing' =
        (set existing \<union> set (fst (diff_stage (map JStr (valid_desired desired)) existing)))
          - set (snd (diff_stage (map JStr (valid_desired desired)) existing))"
  shows "diff_stage (map JStr (valid_desired desired')) existing' = ([], [])
     \<and> syncASN g env asn s1 =
         await (updateSyncedPrefixes db asn (valid_desired desired'))
           (\<lambda>_. recordSyncTime g db asn) (fst s0', snd s0' @ warn_skipped desired')
     \<and> (\<exists>r' s2 evs. syncASN g env asn s1 = Some (r', s2) \<and> snd s2 = snd s1 @ evs
           \<and> list_all (\<lambda>ev. \<not> is_patch ev) evs \<and> patch_payloads evs = [])"
proof -
  have ready: "\<not> (\<not> regex_test asn_regex asn \<or> DB env = None
     \<or> falsy (ACCOUNT_ID env) \<or> falsy (LIST_ID env) \<or> falsy (API_EMAIL env)
     \<or> falsy (API_KEY env))"
  proof
    assume early: "\<not> regex_test asn_regex asn \<or> DB env = None
     \<or> falsy (ACCOUNT_ID env) \<or> falsy (LIST_ID env) \<or> falsy (API_EMAIL env)
     \<or> falsy (API_KEY env)"
    from syncASN_early [OF early, of g s] first show False by auto
  qed
  then have re: "regex_test asn_regex asn"
    and cr: "\<not> (falsy (ACCOUNT_ID env) \<or> falsy (LIST_ID env) \<or> falsy (API_EMAIL env)
             \<or> falsy (API_KEY env))"
    by auto
  from first load1 have "reconcile g env db asn desired existing s0 = Some (Inr (), s1)"
    by (simp add: syncASN_load [OF re db cr] await_def)
  then have some: "\<not> (valid_desired desired = [] \<and> desired \<noteq> [])"
    by (auto simp: reconcile_unfold split: if_splits)
  from faithful have "diff_stage (map JStr (valid_desired desired)) existing' = ([], [])"
    by (rule diff_stage_applied)
  with same have d: "diff_stage (map JStr (valid_desired desired')) existing' = ([], [])"
    by simp
  from load2
  have "syncASN g env asn s1 = reconcile g env db asn desired' existing' s0'"
    by (simp add: syncASN_load [OF re db cr] await_def)
  with some same d
  have eq: "syncASN g env asn s1 =
         await (updateSyncedPrefixes db asn (valid_desired desired'))
           (\<lambda>_. recordSyncTime g db asn) (fst s0', snd s0' @ warn_skipped desired')"
    by (simp add: reconcile_idle)
  from settlesD [OF persist_settles] obtain r' s2
    where run: "await (updateSyncedPrefixes db asn (valid_desired desired'))
           (\<lambda>_. recordSyncTime g db asn) (fst s0', snd s0' @ warn_skipped desired')
           = Some (r', s2)"
    by blast
  from emitsD [OF persist_emits run] obtain post
    where post: "snd s2 = snd s0' @ warn_skipped desired' @ post" "list_all is_local_write post"
    by auto
  from emitsD [OF load_emits load2] obtain e0
    where e0: "snd s0' = snd s1 @ e0"
      "list_all (\<lambda>ev. \<not> is_local_write ev \<and> \<not> is_patch ev) e0"
    by blast
  let ?evs = "e0 @ warn_skipped desired' @ post"
  from e0(2) post(2) warn_skipped_quiet [of desired' g]
  have np: "list_all (\<lambda>ev. \<not> is_patch ev) ?evs"
    by (auto simp: list_all_iff dest: local_write_not_patch)
  from post(1) e0(1) have tr: "snd s2 = snd s1 @ ?evs" by simp
  from eq run have "syncASN g env asn s1 = Some (r', s2)" by simp
  with tr np no_patch_payloads [OF np] have
    "\<exists>r' s2 evs. syncASN g env asn s1 = Some (r', s2) \<and> snd s2 = snd s1 @ evs
           \<and> list_all (\<lambda>ev. \<not> is_patch ev) evs \<and> patch_payloads evs = []"
    by blast
  with d eq show ?thesis by blast
qed

theorem syncASN_second_run_idle_witness:
  "diff_stage (map JStr (valid_desired [''1.1.1.0/24''])) [JStr ''1.1.1.0/24''] = ([], [])
   \<and> (\<exists>r' s2 evs. syncASN two_runs_globals sim_env ''AS1'' (two_runs_between, first_run_trace)
                       = Some (r', s2)
         \<and> snd s2 = first_run_trace @ evs \<and> patch_payloads evs = [])"
proof -
  have faithful: "set [JStr ''1.1.1.0/24''] =
      (set [] \<union> set (fst (diff_stage (map JStr (valid_desired [''1.1.1.0/24''])) [])))
        - set (snd (diff_stage (map JStr (valid_desired [''1.1.1.0/24''])) []))"
    by (simp add: diff_stage_eq sim_valid_desired)
  note all = syncASN_second_run_idle [OF sim_first_run sim_env_ready(1) sim_first_load
      sim_second_load refl faithful]
  from all have d: "diff_stage (map JStr (valid_desired [''1.1.1.0/24''])) [JStr ''1.1.1.0/24''] = ([], [])"
    by (rule conjunct1)
  from all [THEN conjunct2, THEN conjunct2] obtain r' s2 evs
    where run: "syncASN two_runs_globals sim_env ''AS1'' (two_runs_between, first_run_trace)
                  = Some (r', s2)"
      and tr: "snd s2 = snd (two_runs_between, first_run_trace) @ evs"
      and np: "patch_payloads evs = []"
    by blast
  from tr have "snd s2 = first_run_trace @ evs" by simp
  with d run np show ?thesis by blast
qed

subsection \<open>C10: duplicates in the remote list\<close>
















end
